theory Spec2Isabelle
  imports Main "HOL-Library.Signed_Division"
begin

section \<open>Dive list engine of subsurface (divelist.c)\<close>

text \<open>
  A shallow embedding of the computational core of \<^verbatim>\<open>divelist.c\<close>: the gas
  classification of a dive, the duration used by the SAC rate, the backward walk of the
  decompression replay, and the trip bookkeeping (the registry of trips and the linked
  membership lists of their dives).

  C \<^verbatim>\<open>int\<close> and \<^verbatim>\<open>timestamp_t\<close> values are modelled as \<^typ>\<open>int\<close>. Where the
  source adds or subtracts times and durations (the SAC loop, the decompression walk,
  the auto-grouping), the wrap-around of the 32-bit or 64-bit result is written out
  (\<open>int32\<close>, \<open>int64\<close>), and the theorems state the ranges in which no operation
  wraps. The other functions compare such values, or count the dives of a trip.
\<close>

subsection \<open>Cylinders and gas classification\<close>

text \<open>
  \<^verbatim>\<open>struct gasmix\<close> holds the oxygen and helium fractions in permille; a cylinder
  carries its mix next to its size and pressures. The constant \<^verbatim>\<open>O2_IN_AIR\<close>,
  the array length \<^verbatim>\<open>MAX_CYLINDERS\<close> and the helper \<^verbatim>\<open>cylinder_none\<close> are
  declared in \<^verbatim>\<open>dive.h\<close>/\<^verbatim>\<open>dive.c\<close>, outside \<^verbatim>\<open>divelist.c\<close>: the constant and
  the helper are parameters of the model, and the cylinder array is a list (of length
  \<^verbatim>\<open>MAX_CYLINDERS\<close>) that the loop scans from its first slot to its last.
\<close>

record gasmix =
  o2 :: int
  he :: int

record cylinder_t =
  gasmix :: gasmix
  size_mliter :: int
  start_mbar :: int
  end_mbar :: int
  sample_start_mbar :: int
  sample_end_mbar :: int

text \<open>
  The three locals \<^verbatim>\<open>maxo2\<close>, \<^verbatim>\<open>maxhe\<close>, \<^verbatim>\<open>mino2\<close> of
  \<^verbatim>\<open>get_dive_gas\<close>, in this order.
\<close>

type_synonym gas_acc = "int \<times> int \<times> int"

text \<open>One pass of the loop body of \<^verbatim>\<open>get_dive_gas\<close> (lines 425-444).\<close>

definition get_dive_gas_step :: "int \<Rightarrow> (cylinder_t \<Rightarrow> bool) \<Rightarrow> gas_acc \<Rightarrow> cylinder_t \<Rightarrow> gas_acc" where
  "get_dive_gas_step O2_IN_AIR cylinder_none acc cyl =
     (case acc of (maxo2, maxhe, mino2) \<Rightarrow>
        let o2' = o2 (gasmix cyl); he' = he (gasmix cyl) in
        if cylinder_none cyl then (maxo2, maxhe, mino2)
        else
          let o2' = (if o2' = 0 then O2_IN_AIR else o2');
              mino2 = (if o2' < mino2 then o2' else mino2)
          in if he' > maxhe then (o2', he', mino2)
             else if he' < maxhe then (maxo2, maxhe, mino2)
             else if o2' \<le> maxo2 then (maxo2, maxhe, mino2)
             else (o2', he', mino2))"

text \<open>
  \<^verbatim>\<open>get_dive_gas\<close>: the loop over the cylinder array from the initial
  \<^verbatim>\<open>maxo2 = -1, maxhe = -1, mino2 = 1000\<close>, then the "all air" override. The result
  is the triple written through \<^verbatim>\<open>o2_p\<close>, \<^verbatim>\<open>he_p\<close>, \<^verbatim>\<open>o2low_p\<close>.
\<close>

definition get_dive_gas_loop :: "int \<Rightarrow> (cylinder_t \<Rightarrow> bool) \<Rightarrow> cylinder_t list \<Rightarrow> gas_acc" where
  "get_dive_gas_loop O2_IN_AIR cylinder_none cyls =
     foldl (get_dive_gas_step O2_IN_AIR cylinder_none) (- 1, - 1, 1000) cyls"

definition get_dive_gas :: "int \<Rightarrow> (cylinder_t \<Rightarrow> bool) \<Rightarrow> cylinder_t list \<Rightarrow> int \<times> int \<times> int" where
  "get_dive_gas O2_IN_AIR cylinder_none cyls =
     (case get_dive_gas_loop O2_IN_AIR cylinder_none cyls of (maxo2, maxhe, mino2) \<Rightarrow>
        if maxhe = 0 \<and> maxo2 = O2_IN_AIR \<and> mino2 = maxo2
        then (0, maxhe, 0)
        else (maxo2, maxhe, mino2))"

text \<open>
  The text that \<^verbatim>\<open>nitrox_data_func\<close> (lines 531-544) formats from the result of
  \<^verbatim>\<open>get_dive_gas\<close>: each value is rounded to percent with C's truncating division,
  then the column shows "o2/he", a single percentage, a range, or the word "air".
\<close>

datatype gas_text = Trimix_text int int | Nitrox_text int | Nitrox_range_text int int | Air_text

definition nitrox_text :: "int \<times> int \<times> int \<Rightarrow> gas_text" where
  "nitrox_text r =
     (case r of (o2r, her, o2lowr) \<Rightarrow>
        let o2' = (o2r + 5) sdiv 10; he' = (her + 5) sdiv 10; o2low' = (o2lowr + 5) sdiv 10 in
        if he' \<noteq> 0 then Trimix_text o2' he'
        else if o2' \<noteq> 0 then (if o2' = o2low' then Nitrox_text o2' else Nitrox_range_text o2low' o2')
        else Air_text)"

text \<open>
  What the selection of \<^verbatim>\<open>get_dive_gas\<close> is meant to compute, in the words of its
  comment ("highest He wins, O2 breaks ties"): \<open>(mo2, mhe)\<close> is the mix of a non-empty
  cylinder that no other non-empty cylinder beats on helium, or on oxygen at equal
  helium, and \<open>lo\<close> is the least oxygen fraction of a non-empty cylinder. The oxygen
  fraction of a cylinder is read with an unset (zero) value standing for air.
\<close>

definition o2_or_air :: "int \<Rightarrow> cylinder_t \<Rightarrow> int" where
  "o2_or_air O2_IN_AIR cyl = (if o2 (gasmix cyl) = 0 then O2_IN_AIR else o2 (gasmix cyl))"

definition maximal_gas :: "int \<Rightarrow> (cylinder_t \<Rightarrow> bool) \<Rightarrow> cylinder_t list \<Rightarrow> gas_acc \<Rightarrow> bool" where
  "maximal_gas O2_IN_AIR cylinder_none cyls r =
     (case r of (mo2, mhe, lo) \<Rightarrow>
        (\<exists>c \<in> set cyls. \<not> cylinder_none c \<and> he (gasmix c) = mhe \<and> o2_or_air O2_IN_AIR c = mo2) \<and>
        (\<forall>c \<in> set cyls. \<not> cylinder_none c \<longrightarrow>
            he (gasmix c) < mhe \<or> (he (gasmix c) = mhe \<and> o2_or_air O2_IN_AIR c \<le> mo2)) \<and>
        (\<exists>c \<in> set cyls. \<not> cylinder_none c \<and> o2_or_air O2_IN_AIR c = lo) \<and>
        (\<forall>c \<in> set cyls. \<not> cylinder_none c \<longrightarrow> lo \<le> o2_or_air O2_IN_AIR c))"

text \<open>
  A stand-in for \<^verbatim>\<open>cylinder_none\<close> in the worked examples: the slot that
  \<^verbatim>\<open>calloc\<close> leaves, with every field zero, is the empty one.
\<close>

definition zeroed_cylinder :: cylinder_t where
  "zeroed_cylinder = \<lparr>gasmix = \<lparr>o2 = 0, he = 0\<rparr>, size_mliter = 0, start_mbar = 0, end_mbar = 0,
     sample_start_mbar = 0, sample_end_mbar = 0\<rparr>"

definition cylinder_zeroed :: "cylinder_t \<Rightarrow> bool" where
  "cylinder_zeroed cyl = (cyl = zeroed_cylinder)"

definition filled_cylinder :: "int \<Rightarrow> int \<Rightarrow> cylinder_t" where
  "filled_cylinder o2v hev = \<lparr>gasmix = \<lparr>o2 = o2v, he = hev\<rparr>, size_mliter = 12000, start_mbar = 200000,
     end_mbar = 50000, sample_start_mbar = 0, sample_end_mbar = 0\<rparr>"

subsection \<open>Properties of the gas classification\<close>

lemma get_dive_gas_loop_none:
  "\<forall>c \<in> set cyls. cylinder_none c \<Longrightarrow>
   foldl (get_dive_gas_step a cylinder_none) acc cyls = acc"
  by (induction cyls arbitrary: acc) (auto simp: get_dive_gas_step_def split: prod.splits)

lemma get_dive_gas_step_first:
  assumes "\<not> cylinder_none c" "0 \<le> he (gasmix c)" "o2_or_air a c \<le> 1000"
  shows "get_dive_gas_step a cylinder_none (- 1, - 1, 1000) c = (o2_or_air a c, he (gasmix c), o2_or_air a c)"
  using assms by (auto simp: get_dive_gas_step_def o2_or_air_def Let_def)

lemma get_dive_gas_step_filled:
  assumes "\<not> cylinder_none c"
  shows "get_dive_gas_step a cylinder_none (mo2, mhe, lo) c =
     (if he (gasmix c) > mhe \<or> (he (gasmix c) = mhe \<and> o2_or_air a c > mo2)
      then (o2_or_air a c, he (gasmix c), min lo (o2_or_air a c))
      else (mo2, mhe, min lo (o2_or_air a c)))"
  using assms by (auto simp: get_dive_gas_step_def o2_or_air_def Let_def min_def)

lemma maximal_gas_step:
  assumes "maximal_gas a cylinder_none xs (mo2, mhe, lo)" "\<not> cylinder_none x"
  shows "maximal_gas a cylinder_none (xs @ [x]) (get_dive_gas_step a cylinder_none (mo2, mhe, lo) x)"
proof -
  let ?o = "o2_or_air a x" and ?h = "he (gasmix x)"
  from assms(1) have
    ex1: "\<exists>c \<in> set xs. \<not> cylinder_none c \<and> he (gasmix c) = mhe \<and> o2_or_air a c = mo2" and
    all1: "\<And>c. c \<in> set xs \<Longrightarrow> \<not> cylinder_none c \<Longrightarrow>
            he (gasmix c) < mhe \<or> (he (gasmix c) = mhe \<and> o2_or_air a c \<le> mo2)" and
    ex2: "\<exists>c \<in> set xs. \<not> cylinder_none c \<and> o2_or_air a c = lo" and
    all2: "\<And>c. c \<in> set xs \<Longrightarrow> \<not> cylinder_none c \<Longrightarrow> lo \<le> o2_or_air a c"
    by (auto simp: maximal_gas_def)
  have lo_ex: "\<exists>c \<in> set (xs @ [x]). \<not> cylinder_none c \<and> o2_or_air a c = min lo ?o"
    using ex2 assms(2) by (auto simp: min_def)
  have lo_all: "\<forall>c \<in> set (xs @ [x]). \<not> cylinder_none c \<longrightarrow> min lo ?o \<le> o2_or_air a c"
    using all2 by (auto simp: min_def) force+
  show ?thesis
  proof (cases "?h > mhe \<or> (?h = mhe \<and> ?o > mo2)")
    case True
    have "\<forall>c \<in> set (xs @ [x]). \<not> cylinder_none c \<longrightarrow>
            he (gasmix c) < ?h \<or> (he (gasmix c) = ?h \<and> o2_or_air a c \<le> ?o)"
      using all1 True by auto force+
    moreover have "get_dive_gas_step a cylinder_none (mo2, mhe, lo) x = (?o, ?h, min lo ?o)"
      using True assms(2) get_dive_gas_step_filled [of cylinder_none x a mo2 mhe lo] by presburger
    ultimately show ?thesis using lo_ex lo_all assms(2)
      unfolding maximal_gas_def by simp
  next
    case False
    have "\<forall>c \<in> set (xs @ [x]). \<not> cylinder_none c \<longrightarrow>
            he (gasmix c) < mhe \<or> (he (gasmix c) = mhe \<and> o2_or_air a c \<le> mo2)"
      using all1 False by auto
    moreover have "\<exists>c \<in> set (xs @ [x]). \<not> cylinder_none c \<and> he (gasmix c) = mhe \<and> o2_or_air a c = mo2"
      using ex1 by auto
    moreover have "get_dive_gas_step a cylinder_none (mo2, mhe, lo) x = (mo2, mhe, min lo ?o)"
      using False assms(2) get_dive_gas_step_filled [of cylinder_none x a mo2 mhe lo] by presburger
    ultimately show ?thesis using lo_ex lo_all
      unfolding maximal_gas_def by simp
  qed
qed


lemma get_dive_gas_loop_maximal:
  assumes "\<forall>c \<in> set cyls. \<not> cylinder_none c \<longrightarrow> 0 \<le> he (gasmix c) \<and> o2_or_air a c \<le> 1000"
  shows "if \<forall>c \<in> set cyls. cylinder_none c
         then get_dive_gas_loop a cylinder_none cyls = (- 1, - 1, 1000)
         else maximal_gas a cylinder_none cyls (get_dive_gas_loop a cylinder_none cyls)"
  using assms
proof (induction cyls rule: rev_induct)
  case Nil
  then show ?case by (simp add: get_dive_gas_loop_def)
next
  case (snoc x xs)
  let ?r = "get_dive_gas_loop a cylinder_none xs"
  have step: "get_dive_gas_loop a cylinder_none (xs @ [x]) = get_dive_gas_step a cylinder_none ?r x"
    by (simp add: get_dive_gas_loop_def)
  have IH: "if \<forall>c \<in> set xs. cylinder_none c then ?r = (- 1, - 1, 1000)
            else maximal_gas a cylinder_none xs ?r"
    using snoc by simp
  show ?case
  proof (cases "cylinder_none x")
    case True
    then have same: "get_dive_gas_step a cylinder_none ?r x = ?r"
      by (simp add: get_dive_gas_step_def split: prod.splits)
    show ?thesis
    proof (cases "\<forall>c \<in> set xs. cylinder_none c")
      case all: True
      with IH True step same show ?thesis by simp
    next
      case False
      with IH have "maximal_gas a cylinder_none xs ?r" by simp
      then have "maximal_gas a cylinder_none (xs @ [x]) ?r"
        using True by (auto simp: maximal_gas_def split: prod.splits)
      with False step same show ?thesis by auto
    qed
  next
    case False
    with snoc.prems have valid: "0 \<le> he (gasmix x)" "o2_or_air a x \<le> 1000" by auto
    show ?thesis
    proof (cases "\<forall>c \<in> set xs. cylinder_none c")
      case True
      with IH have "?r = (- 1, - 1, 1000)" by simp
      with step False valid
      have "get_dive_gas_loop a cylinder_none (xs @ [x]) = (o2_or_air a x, he (gasmix x), o2_or_air a x)"
        by (simp add: get_dive_gas_step_first)
      with True False show ?thesis
        by (auto simp: maximal_gas_def)
    next
      case some: False
      with IH have m: "maximal_gas a cylinder_none xs ?r" by simp
      obtain mo2 mhe lo where r: "?r = (mo2, mhe, lo)" by (cases ?r) auto
      from maximal_gas_step [of a cylinder_none xs mo2 mhe lo x] m r False step
      have "maximal_gas a cylinder_none (xs @ [x]) (get_dive_gas_loop a cylinder_none (xs @ [x]))"
        by simp
      with False show ?thesis by auto
    qed
  qed
qed

lemma maximal_gas_all_air:
  assumes "maximal_gas a cylinder_none cyls (mo2, mhe, lo)"
    and "\<forall>c \<in> set cyls. \<not> cylinder_none c \<longrightarrow> he (gasmix c) = 0 \<and> o2_or_air a c = a"
  shows "mo2 = a \<and> mhe = 0 \<and> lo = a"
  using assms by (auto simp: maximal_gas_def)


text \<open>
  C5. With at least one non-empty cylinder, and fractions that are permille values,
  the loop of \<open>get_dive_gas\<close> returns the mix with the most helium and, among those, the
  most oxygen, together with the least oxygen fraction seen; \<open>get_dive_gas\<close> returns
  that triple unless it is plain air throughout, which it reports as zero/zero. On
  the cylinders 21/0 and 18/45 (followed by empty slots) the result is the trimix with a
  minimum oxygen of 180 permille. When every non-empty cylinder holds air (helium zero,
  oxygen unset or \<open>O2_IN_AIR\<close>) the result is zero/zero.
\<close>

theorem get_dive_gas_selection:
  assumes "O2_IN_AIR \<le> 1000"
    and "\<forall>c \<in> set cyls. \<not> cylinder_none c \<longrightarrow> 0 \<le> he (gasmix c) \<and> o2 (gasmix c) \<le> 1000"
    and "\<exists>c \<in> set cyls. \<not> cylinder_none c"
    and "\<not> cylinder_none c1" "gasmix c1 = \<lparr>o2 = 210, he = 0\<rparr>"
    and "\<not> cylinder_none c2" "gasmix c2 = \<lparr>o2 = 180, he = 450\<rparr>"
    and "\<forall>c \<in> set rest. cylinder_none c"
    and "\<exists>c \<in> set airs. \<not> cylinder_none c"
    and "\<forall>c \<in> set airs. \<not> cylinder_none c \<longrightarrow>
           he (gasmix c) = 0 \<and> (o2 (gasmix c) = O2_IN_AIR \<or> o2 (gasmix c) = 0)"
  shows "maximal_gas O2_IN_AIR cylinder_none cyls (get_dive_gas_loop O2_IN_AIR cylinder_none cyls) \<and>
         get_dive_gas O2_IN_AIR cylinder_none cyls =
           (if get_dive_gas_loop O2_IN_AIR cylinder_none cyls = (O2_IN_AIR, 0, O2_IN_AIR)
            then (0, 0, 0) else get_dive_gas_loop O2_IN_AIR cylinder_none cyls) \<and>
         get_dive_gas O2_IN_AIR cylinder_none (c1 # c2 # rest) = (180, 450, 180) \<and>
         get_dive_gas O2_IN_AIR cylinder_none airs = (0, 0, 0)"
proof -
  let ?loop = "get_dive_gas_loop O2_IN_AIR cylinder_none"
  have valid: "\<forall>c \<in> set cyls. \<not> cylinder_none c \<longrightarrow>
      0 \<le> he (gasmix c) \<and> o2_or_air O2_IN_AIR c \<le> 1000"
    using assms(1,2) by (auto simp: o2_or_air_def)
  have pick: "maximal_gas O2_IN_AIR cylinder_none cyls (?loop cyls)"
    using get_dive_gas_loop_maximal [OF valid] assms(3) by auto
  have override: "get_dive_gas O2_IN_AIR cylinder_none cyls =
      (if ?loop cyls = (O2_IN_AIR, 0, O2_IN_AIR) then (0, 0, 0) else ?loop cyls)"
    by (cases "?loop cyls") (auto simp: get_dive_gas_def)
  have "?loop (c1 # c2 # rest) =
      foldl (get_dive_gas_step O2_IN_AIR cylinder_none)
        (get_dive_gas_step O2_IN_AIR cylinder_none
           (get_dive_gas_step O2_IN_AIR cylinder_none (- 1, - 1, 1000) c1) c2) rest"
    by (simp add: get_dive_gas_loop_def)
  also have "\<dots> = get_dive_gas_step O2_IN_AIR cylinder_none
           (get_dive_gas_step O2_IN_AIR cylinder_none (- 1, - 1, 1000) c1) c2"
    using assms(8) by (rule get_dive_gas_loop_none)
  also have "\<dots> = (180, 450, 180)"
    using assms(4-7) by (simp add: get_dive_gas_step_def)
  finally have example: "get_dive_gas O2_IN_AIR cylinder_none (c1 # c2 # rest) = (180, 450, 180)"
    by (simp add: get_dive_gas_def)
  have valid_airs: "\<forall>c \<in> set airs. \<not> cylinder_none c \<longrightarrow>
      0 \<le> he (gasmix c) \<and> o2_or_air O2_IN_AIR c \<le> 1000"
    using assms(1,10) by (auto simp: o2_or_air_def)
  have m: "maximal_gas O2_IN_AIR cylinder_none airs (?loop airs)"
    using get_dive_gas_loop_maximal [OF valid_airs] assms(9) by auto
  obtain mo2 mhe lo where r: "?loop airs = (mo2, mhe, lo)" by (cases "?loop airs") auto
  have "\<forall>c \<in> set airs. \<not> cylinder_none c \<longrightarrow> he (gasmix c) = 0 \<and> o2_or_air O2_IN_AIR c = O2_IN_AIR"
    using assms(10) by (auto simp: o2_or_air_def)
  with m r have "mo2 = O2_IN_AIR \<and> mhe = 0 \<and> lo = O2_IN_AIR"
    using maximal_gas_all_air [of O2_IN_AIR cylinder_none airs mo2 mhe lo] by simp
  with r have air: "get_dive_gas O2_IN_AIR cylinder_none airs = (0, 0, 0)"
    by (simp add: get_dive_gas_def)
  from pick override example air show ?thesis by blast
qed

theorem get_dive_gas_selection_witness:
  "maximal_gas 209 cylinder_zeroed [filled_cylinder 320 0, zeroed_cylinder, filled_cylinder 210 350]
     (210, 350, 210) \<and>
   get_dive_gas 209 cylinder_zeroed [filled_cylinder 320 0, zeroed_cylinder, filled_cylinder 210 350]
     = (210, 350, 210) \<and>
   get_dive_gas 209 cylinder_zeroed [filled_cylinder 210 0, filled_cylinder 180 450, zeroed_cylinder]
     = (180, 450, 180) \<and>
   get_dive_gas 209 cylinder_zeroed [filled_cylinder 209 0, zeroed_cylinder, filled_cylinder 0 0]
     = (0, 0, 0)"
proof -
  have loop: "get_dive_gas_loop 209 cylinder_zeroed
      [filled_cylinder 320 0, zeroed_cylinder, filled_cylinder 210 350] = (210, 350, 210)"
    by (simp add: get_dive_gas_loop_def get_dive_gas_step_def cylinder_zeroed_def
        filled_cylinder_def zeroed_cylinder_def)
  have nonempty: "\<not> cylinder_zeroed (filled_cylinder x y)" for x y
    by (simp add: cylinder_zeroed_def filled_cylinder_def zeroed_cylinder_def)
  have empty: "cylinder_zeroed zeroed_cylinder"
    by (simp add: cylinder_zeroed_def)
  have mix: "gasmix (filled_cylinder x y) = \<lparr>o2 = x, he = y\<rparr>" for x y
    by (simp add: filled_cylinder_def)
  have "gasmix zeroed_cylinder = \<lparr>o2 = 0, he = 0\<rparr>"
    by (simp add: zeroed_cylinder_def)
  note facts = nonempty empty mix this
  have h: "(209::int) \<le> 1000 \<longrightarrow>
    maximal_gas 209 cylinder_zeroed [filled_cylinder 320 0, zeroed_cylinder, filled_cylinder 210 350]
      (get_dive_gas_loop 209 cylinder_zeroed [filled_cylinder 320 0, zeroed_cylinder, filled_cylinder 210 350]) \<and>
    get_dive_gas 209 cylinder_zeroed [filled_cylinder 320 0, zeroed_cylinder, filled_cylinder 210 350] =
      (if get_dive_gas_loop 209 cylinder_zeroed [filled_cylinder 320 0, zeroed_cylinder, filled_cylinder 210 350]
          = (209, 0, 209)
       then (0, 0, 0)
       else get_dive_gas_loop 209 cylinder_zeroed [filled_cylinder 320 0, zeroed_cylinder, filled_cylinder 210 350]) \<and>
    get_dive_gas 209 cylinder_zeroed [filled_cylinder 210 0, filled_cylinder 180 450, zeroed_cylinder]
      = (180, 450, 180) \<and>
    get_dive_gas 209 cylinder_zeroed [filled_cylinder 209 0, zeroed_cylinder, filled_cylinder 0 0]
      = (0, 0, 0)"
    using get_dive_gas_selection [of 209
        "[filled_cylinder 320 0, zeroed_cylinder, filled_cylinder 210 350]" cylinder_zeroed
        "filled_cylinder 210 0" "filled_cylinder 180 450" "[zeroed_cylinder]"
        "[filled_cylinder 209 0, zeroed_cylinder, filled_cylinder 0 0]"]
    by (simp add: facts)
  show ?thesis using h unfolding loop by simp
qed


text \<open>
  C9, as stated: classification of a dive without any cylinder would return the zero/zero
  mix. On eight empty slots the code returns the initial values of its loop instead.
\<close>

theorem get_dive_gas_no_cylinder_counterexample:
  "fst (get_dive_gas 209 cylinder_zeroed (replicate 8 zeroed_cylinder)) = - 1 \<and>
   fst (snd (get_dive_gas 209 cylinder_zeroed (replicate 8 zeroed_cylinder))) = - 1"
proof -
  have "get_dive_gas_loop 209 cylinder_zeroed (replicate 8 zeroed_cylinder) = (- 1, - 1, 1000)"
    unfolding get_dive_gas_loop_def
    by (rule get_dive_gas_loop_none) (simp add: cylinder_zeroed_def)
  then show ?thesis by (simp add: get_dive_gas_def)
qed

text \<open>
  C9, amended: for a dive whose cylinder slots are all empty, \<open>get_dive_gas\<close> returns
  the initial values of its loop, oxygen \<open>-1\<close>, helium \<open>-1\<close> and minimum oxygen
  \<open>1000\<close>; the gas column of the list rounds them to percent and shows "air".
\<close>

theorem get_dive_gas_no_cylinder:
  assumes "\<forall>c \<in> set cyls. cylinder_none c"
  shows "get_dive_gas O2_IN_AIR cylinder_none cyls = (- 1, - 1, 1000) \<and>
         nitrox_text (get_dive_gas O2_IN_AIR cylinder_none cyls) = Air_text"
proof -
  have "get_dive_gas_loop O2_IN_AIR cylinder_none cyls = (- 1, - 1, 1000)"
    unfolding get_dive_gas_loop_def using assms by (rule get_dive_gas_loop_none)
  then have r: "get_dive_gas O2_IN_AIR cylinder_none cyls = (- 1, - 1, 1000)"
    by (simp add: get_dive_gas_def)
  have "nitrox_text (- 1, - 1, 1000) = Air_text"
    by (simp add: nitrox_text_def signed_divide_int_def)
  with r show ?thesis by simp
qed

theorem get_dive_gas_no_cylinder_witness:
  "get_dive_gas 209 cylinder_zeroed [zeroed_cylinder, zeroed_cylinder] = (- 1, - 1, 1000) \<and>
   nitrox_text (get_dive_gas 209 cylinder_zeroed [zeroed_cylinder, zeroed_cylinder]) = Air_text"
  by (rule get_dive_gas_no_cylinder) (simp add: cylinder_zeroed_def)



subsection \<open>The duration used by the SAC rate\<close>

text \<open>
  A sample of the dive computer holds a time in seconds and a depth in millimetres;
  a \<^verbatim>\<open>struct divecomputer\<close> holds the samples (\<^verbatim>\<open>dc->samples\<close> is their number),
  the recorded duration and the mean depth.
\<close>

record sample =
  time_seconds :: int
  depth_mm :: int

record divecomputer =
  samples :: "sample list"
  dc_duration_seconds :: int
  meandepth_mm :: int

text \<open>
  The times and the duration are C \<^verbatim>\<open>int\<close> values of 32 bits. \<open>int32\<close> is the value
  such a variable holds after an arithmetic operation: the two's complement wrap-around of
  the exact result.
\<close>

definition int32 :: "int \<Rightarrow> int" where
  "int32 x = (x + 2147483648) mod 4294967296 - 2147483648"

text \<open>
  The inner loop of \<^verbatim>\<open>calculate_sac\<close> (lines 711-712): from \<open>e\<close>, advance while the
  sample is shallower than 10 cm.
\<close>

function surface_end :: "sample list \<Rightarrow> nat \<Rightarrow> nat" where
  "surface_end s e =
     (if e < length s \<and> depth_mm (s ! e) < 100 then surface_end s (e + 1) else e)"
  by pat_completeness auto
termination
  by (relation "measure (\<lambda>(s, e). length s - e)") auto

declare surface_end.simps [simp del]

lemma surface_end_ge: "e \<le> surface_end s e"
proof (induction s e rule: surface_end.induct)
  case (1 s e)
  show ?case
  proof (cases "e < length s \<and> depth_mm (s ! e) < 100")
    case True
    with 1 have "e + 1 \<le> surface_end s (e + 1)" by simp
    with True show ?thesis by (subst surface_end.simps) simp
  next
    case False
    then show ?thesis by (subst surface_end.simps) auto
  qed
qed

text \<open>
  The outer loop of \<^verbatim>\<open>calculate_sac\<close> (lines 708-721) with its two variables, the
  index \<open>i\<close> and the duration. Inside the guarded block the source decrements \<open>end\<close>,
  subtracts the span of the run, in 32-bit arithmetic, and sets \<open>i = end + 1\<close>; the
  increment of the \<^verbatim>\<open>for\<close> statement then adds one more.
\<close>

function sac_duration_loop :: "sample list \<Rightarrow> nat \<Rightarrow> int \<Rightarrow> int" where
  "sac_duration_loop s i duration =
     (if i < length s then
        (if depth_mm (s ! i) < 100 then
           (if surface_end s (i + 1) < length s then
              sac_duration_loop s ((surface_end s (i + 1) - 1) + 1 + 1)
                (int32 (duration -
                   int32 (time_seconds (s ! (surface_end s (i + 1) - 1)) - time_seconds (s ! i))))
            else sac_duration_loop s (i + 1) duration)
         else sac_duration_loop s (i + 1) duration)
      else duration)"
  by pat_completeness auto
termination
proof (relation "measure (\<lambda>(s, i, d). length s - i)")
  fix s :: "sample list" and i :: nat and duration :: int
  assume "i < length s" "surface_end s (i + 1) < length s"
  moreover have "i + 1 \<le> surface_end s (i + 1)" by (rule surface_end_ge)
  ultimately show "((s, surface_end s (i + 1) - 1 + 1 + 1, int32 (duration -
      int32 (time_seconds (s ! (surface_end s (i + 1) - 1)) - time_seconds (s ! i)))), s, i, duration)
      \<in> measure (\<lambda>(s, i, d). length s - i)"
    by simp
qed auto

declare sac_duration_loop.simps [simp del]

text \<open>
  The duration that \<^verbatim>\<open>calculate_sac\<close> divides by (line 724), once both early returns
  are passed. The air use, the pressure and the quotient are floating-point values and
  are not part of the model.
\<close>

definition sac_duration :: "divecomputer \<Rightarrow> int" where
  "sac_duration dc = sac_duration_loop (samples dc) 0 (dc_duration_seconds dc)"

text \<open>
  The time that is taken out, described on the list of samples: every maximal run of
  shallow samples that is followed by a deeper sample contributes the time from its first
  to its last sample, wherever it starts; a run that lasts to the final sample
  contributes nothing.
\<close>

definition shallow :: "sample \<Rightarrow> bool" where
  "shallow x = (depth_mm x < 100)"

function surface_time :: "sample list \<Rightarrow> int" where
  "surface_time [] = 0"
| "surface_time (x # xs) =
     (if shallow x then
        (if dropWhile shallow xs = [] then 0
         else time_seconds (last (x # takeWhile shallow xs)) - time_seconds x
              + surface_time (dropWhile shallow xs))
      else surface_time xs)"
  by pat_completeness auto
termination
  by (relation "measure length") (auto simp: length_dropWhile_le less_Suc_eq_le)


declare surface_time.simps [simp del]

text \<open>
  The reading of C6 as it is stated: a run that reaches the start of the samples is not
  taken out either, so only the runs after the leading one count.
\<close>

definition interior_surface_time :: "sample list \<Rightarrow> int" where
  "interior_surface_time s = surface_time (dropWhile shallow s)"

definition sac_example :: divecomputer where
  "sac_example = \<lparr>samples =
      [\<lparr>time_seconds = 0, depth_mm = 0\<rparr>, \<lparr>time_seconds = 10, depth_mm = 50\<rparr>,
       \<lparr>time_seconds = 20, depth_mm = 5000\<rparr>, \<lparr>time_seconds = 30, depth_mm = 6000\<rparr>,
       \<lparr>time_seconds = 40, depth_mm = 0\<rparr>, \<lparr>time_seconds = 70, depth_mm = 20\<rparr>,
       \<lparr>time_seconds = 80, depth_mm = 4000\<rparr>, \<lparr>time_seconds = 90, depth_mm = 0\<rparr>,
       \<lparr>time_seconds = 100, depth_mm = 0\<rparr>],
     dc_duration_seconds = 100, meandepth_mm = 3000\<rparr>"

subsection \<open>Properties of the SAC duration\<close>

lemma surface_end_takeWhile:
  "e \<le> length s \<Longrightarrow> surface_end s e = e + length (takeWhile shallow (drop e s))"
proof (induction s e rule: surface_end.induct)
  case (1 s e)
  show ?case
  proof (cases "e < length s")
    case True
    then have d: "drop e s = s ! e # drop (e + 1) s"
      by (simp add: Cons_nth_drop_Suc)
    show ?thesis
    proof (cases "depth_mm (s ! e) < 100")
      case deep: False
      with True d show ?thesis
        by (subst surface_end.simps) (simp add: shallow_def)
    next
      case sh: True
      with True 1 have "surface_end s (e + 1) = e + 1 + length (takeWhile shallow (drop (e + 1) s))"
        by simp
      with True sh d show ?thesis
        by (subst surface_end.simps) (simp add: shallow_def)
    qed
  next
    case False
    with 1 show ?thesis by (subst surface_end.simps) simp
  qed
qed

lemma surface_time_all_shallow: "\<forall>x \<in> set xs. shallow x \<Longrightarrow> surface_time xs = 0"
  by (cases xs) (simp_all add: surface_time.simps)

lemma surface_time_deep: "\<not> shallow x \<Longrightarrow> surface_time (x # xs) = surface_time xs"
  by (simp add: surface_time.simps)

lemma dropWhile_as_drop: "dropWhile P xs = drop (length (takeWhile P xs)) xs"
  by (induction xs) auto

lemma int32_id: "- 2147483648 \<le> x \<Longrightarrow> x < 2147483648 \<Longrightarrow> int32 x = x"
  by (simp add: int32_def)

text \<open>
  Samples whose times do not decrease: every run that is taken out has a span that is not
  negative, and all of them together span at most the time from the first sample to the
  last.
\<close>

lemma surface_time_bounds:
  "sorted (map time_seconds xs) \<Longrightarrow>
   0 \<le> surface_time xs \<and> (xs \<noteq> [] \<longrightarrow> surface_time xs \<le> time_seconds (last xs) - time_seconds (hd xs))"
proof (induction xs rule: surface_time.induct)
  case 1
  then show ?case by (simp add: surface_time.simps)
next
  case (2 x xs)
  from "2.prems" have le: "\<forall>y \<in> set xs. time_seconds x \<le> time_seconds y"
    and so: "sorted (map time_seconds xs)" by simp_all
  show ?case
  proof (cases "shallow x")
    case False
    with 2 so have IH: "0 \<le> surface_time xs \<and>
        (xs \<noteq> [] \<longrightarrow> surface_time xs \<le> time_seconds (last xs) - time_seconds (hd xs))"
      by simp
    have st: "surface_time (x # xs) = surface_time xs" using False by (rule surface_time_deep)
    show ?thesis
    proof (cases "xs = []")
      case True
      then show ?thesis by (simp add: st surface_time.simps)
    next
      case ne: False
      then have "hd xs \<in> set xs" by simp
      with le have "time_seconds x \<le> time_seconds (hd xs)" by blast
      with IH ne show ?thesis by (simp add: st)
    qed
  next
    case sh: True
    let ?tw = "takeWhile shallow xs" and ?dw = "dropWhile shallow xs"
    show ?thesis
    proof (cases "?dw = []")
      case True
      then have "surface_time (x # xs) = 0" using sh by (simp add: surface_time.simps)
      moreover have "time_seconds x \<le> time_seconds (last (x # xs))"
        using le by (cases "xs = []") simp_all
      ultimately show ?thesis by simp
    next
      case ne: False
      have split: "xs = ?tw @ ?dw" by simp
      have "sorted (map time_seconds (?tw @ ?dw))" using so by simp
      then have sdw: "sorted (map time_seconds ?dw)"
        and cross: "\<forall>a \<in> set ?tw. \<forall>b \<in> set ?dw. time_seconds a \<le> time_seconds b"
        unfolding map_append sorted_append by auto
      from 2 sh ne sdw have IH: "0 \<le> surface_time ?dw \<and>
          surface_time ?dw \<le> time_seconds (last ?dw) - time_seconds (hd ?dw)"
        by simp
      have st: "surface_time (x # xs) =
          time_seconds (last (x # ?tw)) - time_seconds x + surface_time ?dw"
        by (subst surface_time.simps) (simp only: sh ne if_True if_False)
      have hdw: "hd ?dw \<in> set ?dw" using ne by simp
      then have hx: "hd ?dw \<in> set xs" by (rule set_dropWhileD)
      have l1: "time_seconds x \<le> time_seconds (last (x # ?tw))"
      proof (cases "?tw = []")
        case True
        then show ?thesis by simp
      next
        case False
        then have "last ?tw \<in> set ?tw" by simp
        then have "last ?tw \<in> set xs" by (rule set_takeWhileD [THEN conjunct1])
        with le False show ?thesis by simp
      qed
      have l2: "time_seconds (last (x # ?tw)) \<le> time_seconds (hd ?dw)"
      proof (cases "?tw = []")
        case True
        with le hx show ?thesis by simp
      next
        case False
        then have "last ?tw \<in> set ?tw" by simp
        with cross hdw False show ?thesis by simp
      qed
      from ne have xne: "xs \<noteq> []" by auto
      have "last (?tw @ ?dw) = last ?dw" using ne by (rule last_appendR)
      then have "last xs = last ?dw" by (simp only: takeWhile_dropWhile_id)
      then have l3: "last (x # xs) = last ?dw" by (simp only: last_ConsR [OF xne])
      from IH l1 l2 show ?thesis unfolding st l3 by simp
    qed
  qed
qed

lemma sorted_times_nth:
  assumes "sorted (map time_seconds s)" "i \<le> j" "j < length s"
  shows "time_seconds (s ! i) \<le> time_seconds (s ! j)"
  using sorted_nth_mono [OF assms(1), of i j] assms(2,3) by simp

lemma sorted_times_drop:
  "sorted (map time_seconds s) \<Longrightarrow> sorted (map time_seconds (drop k s))"
  unfolding drop_map [symmetric] by (rule sorted_wrt_drop)

text \<open>
  For samples of a 32-bit integer time that does not decrease, and a duration from which
  the spans can be subtracted within the 32-bit range, no subtraction of the loop wraps.
\<close>

lemma sac_duration_loop_surface_time:
  assumes "sorted (map time_seconds s)"
    and "\<forall>x \<in> set s. 0 \<le> time_seconds x \<and> time_seconds x < 2147483648"
    and "- 2147483648 \<le> d - surface_time (drop i s)" "d < 2147483648"
  shows "sac_duration_loop s i d = d - surface_time (drop i s)"
  using assms
proof (induction s i d rule: sac_duration_loop.induct)
  case (1 s i d)
  note so = "1.prems"(1) and rng = "1.prems"(2) and lo = "1.prems"(3) and hi = "1.prems"(4)
  show ?case
  proof (cases "i < length s")
    case False
    then show ?thesis
      by (subst sac_duration_loop.simps) (simp add: surface_time.simps)
  next
    case True
    then have d: "drop i s = s ! i # drop (i + 1) s"
      by (simp add: Cons_nth_drop_Suc)
    show ?thesis
    proof (cases "depth_mm (s ! i) < 100")
      case deep: False
      then have "surface_time (drop i s) = surface_time (drop (i + 1) s)"
        unfolding d by (simp add: surface_time_deep shallow_def)
      note same = this
      with True deep 1 have "sac_duration_loop s (i + 1) d = d - surface_time (drop (i + 1) s)"
        by simp
      with True deep same show ?thesis
        by (subst sac_duration_loop.simps) simp
    next
      case sh: True
      let ?xs = "drop (i + 1) s"
      let ?tw = "takeWhile shallow ?xs"
      let ?e = "surface_end s (i + 1)"
      have e: "?e = i + 1 + length ?tw"
        using True by (simp add: surface_end_takeWhile)
      show ?thesis
      proof (cases "?e < length s")
        case False
        with e True have "length ?tw = length ?xs"
          using length_takeWhile_le [of shallow ?xs] by simp
        then have all: "dropWhile shallow ?xs = []"
          by (simp add: dropWhile_as_drop)
        then have "\<forall>x \<in> set ?xs. shallow x"
          by simp
        then have z: "surface_time ?xs = 0" by (rule surface_time_all_shallow)
        have z': "surface_time (drop i s) = 0"
          unfolding d using sh all by (simp add: surface_time.simps shallow_def)
        from True sh False 1 z z' have "sac_duration_loop s (i + 1) d = d - surface_time ?xs"
          by simp
        with True sh False z z' show ?thesis
          by (subst sac_duration_loop.simps) simp
      next
        case fits: True
        have dw: "dropWhile shallow ?xs = drop ?e s"
          using e by (simp add: dropWhile_as_drop add.commute)
        have de: "drop ?e s = s ! ?e # drop (?e + 1) s"
          using fits by (simp add: Cons_nth_drop_Suc)
        have "s ! ?e = hd (dropWhile shallow ?xs)"
          using dw de by simp
        moreover have "dropWhile shallow ?xs \<noteq> []"
          using dw de by simp
        ultimately have deep_e: "\<not> shallow (s ! ?e)"
          using hd_dropWhile [of shallow ?xs] by simp
        have tw: "s ! i # ?tw = take (length ?tw + 1) (drop i s)"
          using d takeWhile_eq_take [of shallow ?xs] by simp
        have "last (s ! i # ?tw) = (s ! i # ?tw) ! length ?tw"
          by (metis last_conv_nth length_Cons list.distinct(1) diff_Suc_1)
        also have "\<dots> = drop i s ! length ?tw"
          by (subst tw) simp
        also have "\<dots> = s ! (?e - 1)"
          using e fits by simp
        finally have lst: "last (s ! i # ?tw) = s ! (?e - 1)" .
        let ?span = "time_seconds (s ! (?e - 1)) - time_seconds (s ! i)"
        have spec: "surface_time (drop i s) = ?span + surface_time (drop (?e + 1) s)"
          using sh dw de deep_e lst
          by (subst d, subst surface_time.simps) (simp add: shallow_def surface_time_deep)
        have "i \<le> ?e - 1" "?e - 1 < length s" using e fits by simp_all
        then have "time_seconds (s ! i) \<le> time_seconds (s ! (?e - 1))"
          by (rule sorted_times_nth [OF so])
        moreover have "s ! (?e - 1) \<in> set s" "s ! i \<in> set s"
          using \<open>?e - 1 < length s\<close> True by simp_all
        with rng have "time_seconds (s ! (?e - 1)) < 2147483648" "0 \<le> time_seconds (s ! i)"
          by blast+
        ultimately have span: "0 \<le> ?span" "?span < 2147483648"
          by simp_all
        then have w1: "int32 ?span = ?span" by (simp add: int32_id)
        have rest: "0 \<le> surface_time (drop (?e + 1) s)"
          using surface_time_bounds [OF sorted_times_drop [OF so, of "?e + 1"]] by simp
        have w2: "int32 (d - ?span) = d - ?span"
          using span rest spec lo hi by (intro int32_id) simp_all
        have idx: "?e - 1 + 1 + 1 = ?e + 1" using e by simp
        have "sac_duration_loop s (?e - 1 + 1 + 1) (int32 (d - int32 ?span)) =
            int32 (d - int32 ?span) - surface_time (drop (?e - 1 + 1 + 1) s)"
        proof (rule "1.IH"(1) [OF True sh fits so rng])
          show "- 2147483648 \<le> int32 (d - int32 ?span) - surface_time (drop (?e - 1 + 1 + 1) s)"
            unfolding w1 w2 idx using spec lo by simp
          show "int32 (d - int32 ?span) < 2147483648"
            unfolding w1 w2 using span hi by simp
        qed
        then have "sac_duration_loop s (?e + 1) (d - ?span) = d - ?span - surface_time (drop (?e + 1) s)"
          by (simp only: w1 w2 idx)
        with True sh fits spec idx w1 w2 show ?thesis
          by (subst sac_duration_loop.simps) simp
      qed
    qed
  qed
qed

text \<open>
  C6, as stated: a shallow run at the very start of the samples would stay in the
  duration. In the example the first two samples are a shallow run of 10 seconds, the run
  from 40 to 70 seconds lies inside the dive, and the last two samples are a shallow run
  that lasts to the end. The stated rule takes 30 seconds out of the 100; the code takes
  40, the leading run included.
\<close>

theorem sac_duration_leading_run_counterexample:
  "sac_duration sac_example = 60 \<and>
   dc_duration_seconds sac_example - interior_surface_time (samples sac_example) = 70"
proof -
  have "surface_time (samples sac_example) = 40"
    by (simp add: sac_example_def surface_time.simps shallow_def)
  moreover have "interior_surface_time (samples sac_example) = 30"
    by (simp add: interior_surface_time_def sac_example_def surface_time.simps shallow_def)
  moreover have "sac_duration_loop (samples sac_example) 0 (dc_duration_seconds sac_example) =
      dc_duration_seconds sac_example - surface_time (drop 0 (samples sac_example))"
    by (rule sac_duration_loop_surface_time)
       (simp_all add: sac_example_def surface_time.simps shallow_def)
  ultimately show ?thesis
    by (simp add: sac_duration_def) (simp add: sac_example_def)
qed

text \<open>
  C6, amended: the duration used as denominator is the recorded duration minus the time
  spanned by every contiguous run of samples shallower than 10 cm that is followed by a
  deeper sample, a run that begins at the first sample included; a shallow run that
  reaches the end of the samples is not taken out. This is proved for samples whose
  times are 32-bit values that are not negative and do not decrease, and for a recorded
  duration that is a 32-bit value and not negative; then no subtraction of the loop
  leaves the 32-bit range.
\<close>

theorem sac_duration_excises_surface_runs:
  assumes "sorted (map time_seconds (samples dc))"
    and "\<forall>x \<in> set (samples dc). 0 \<le> time_seconds x \<and> time_seconds x < 2147483648"
    and "0 \<le> dc_duration_seconds dc" "dc_duration_seconds dc < 2147483648"
  shows "sac_duration dc = dc_duration_seconds dc - surface_time (samples dc)"
proof -
  have "surface_time (samples dc) < 2147483648"
  proof (cases "samples dc = []")
    case True
    then show ?thesis by (simp add: surface_time.simps)
  next
    case False
    then have "last (samples dc) \<in> set (samples dc)" "hd (samples dc) \<in> set (samples dc)"
      by simp_all
    with assms(2) have "time_seconds (last (samples dc)) < 2147483648"
      "0 \<le> time_seconds (hd (samples dc))"
      by blast+
    with surface_time_bounds [OF assms(1)] False show ?thesis by simp
  qed
  with assms(3) have "- 2147483648 \<le> dc_duration_seconds dc - surface_time (drop 0 (samples dc))"
    by simp
  with assms(1,2) have "sac_duration_loop (samples dc) 0 (dc_duration_seconds dc) =
      dc_duration_seconds dc - surface_time (drop 0 (samples dc))"
    using assms(4) by (rule sac_duration_loop_surface_time)
  then show ?thesis by (simp add: sac_duration_def)
qed

theorem sac_duration_excises_surface_runs_witness:
  "sac_duration sac_example = 100 - 40"
proof -
  have "surface_time (samples sac_example) = 40"
    by (simp add: sac_example_def surface_time.simps shallow_def)
  with sac_duration_excises_surface_runs [of sac_example] show ?thesis
    by (simp add: sac_example_def)
qed

subsection \<open>Dives, trips and the state of the dive list\<close>

text \<open>
  \<^verbatim>\<open>struct dive\<close> and \<^verbatim>\<open>dive_trip_t\<close> objects live in two heaps indexed by
  addresses. A dive is linked into the list of its trip through \<^verbatim>\<open>next\<close> and
  \<^verbatim>\<open>pprev\<close>; the latter is a \<^verbatim>\<open>struct dive **\<close> that points either at the
  \<^verbatim>\<open>dives\<close> field of a trip or at the \<^verbatim>\<open>next\<close> field of a dive. A null
  pointer is \<open>None\<close>. Fields that both structs have carry the struct in their name
  (\<open>dive_when\<close>, \<open>trip_when\<close>).
\<close>

text \<open>
  \<^verbatim>\<open>timestamp_t\<close> is a signed integer of 64 bits. \<open>int64\<close> is the value such a
  variable holds after an addition: the two's complement wrap-around of the exact sum.
\<close>

definition int64 :: "int \<Rightarrow> int" where
  "int64 x = (x + 9223372036854775808) mod 18446744073709551616 - 9223372036854775808"

type_synonym dive_ptr = nat
type_synonym trip_ptr = nat

datatype tripflag = TF_NONE | NO_TRIP | IN_TRIP | ASSIGNED_TRIP

datatype dive_link = Trip_dives trip_ptr | Dive_next dive_ptr

record dive =
  dive_when :: int
  duration_seconds :: int
  dive_location :: "string option"
  divetrip :: "trip_ptr option"
  dive_next :: "dive_ptr option"
  pprev :: "dive_link option"
  tripflag :: tripflag
  selected :: bool
  cylinder :: "cylinder_t list"
  dc :: divecomputer

record dive_trip =
  trip_when :: int
  trip_location :: "string option"
  trip_notes :: "string option"
  dives :: "dive_ptr option"
  nrdives :: int
  index :: int
  autogen :: bool

text \<open>
  The global state: the two heaps, the number of trips allocated so far (\<^verbatim>\<open>calloc\<close>
  hands out the next unused address), the registry \<^verbatim>\<open>dive_trip_list\<close> and the
  \<^verbatim>\<open>dive_table\<close>. The registry is the list of the trips reached from
  \<^verbatim>\<open>dive_trip_list\<close> through \<^verbatim>\<open>trip->next\<close>, in that order. The storage of a
  deleted trip is not reused, and \<^verbatim>\<open>free\<close> leaves its content in place.
\<close>

record divelist =
  dive_heap :: "dive_ptr \<Rightarrow> dive"
  trip_heap :: "trip_ptr \<Rightarrow> dive_trip"
  trips_allocated :: nat
  dive_trip_list :: "trip_ptr list"
  dive_table :: "dive_ptr list"

text \<open>Writing the fields of one object of a heap.\<close>

definition dive_upd :: "dive_ptr \<Rightarrow> (dive \<Rightarrow> dive) \<Rightarrow> divelist \<Rightarrow> divelist" where
  "dive_upd d f st = st\<lparr>dive_heap := (dive_heap st)(d := f (dive_heap st d))\<rparr>"

definition trip_upd :: "trip_ptr \<Rightarrow> (dive_trip \<Rightarrow> dive_trip) \<Rightarrow> divelist \<Rightarrow> divelist" where
  "trip_upd t f st = st\<lparr>trip_heap := (trip_heap st)(t := f (trip_heap st t))\<rparr>"

text \<open>The assignment \<^verbatim>\<open>*pprev = next\<close>.\<close>

definition store_link :: "dive_link \<Rightarrow> dive_ptr option \<Rightarrow> divelist \<Rightarrow> divelist" where
  "store_link l v st =
     (case l of
        Trip_dives t \<Rightarrow> trip_upd t (\<lambda>x. x\<lparr>dives := v\<rparr>) st
      | Dive_next d \<Rightarrow> dive_upd d (\<lambda>x. x\<lparr>dive_next := v\<rparr>) st)"

text \<open>
  Modelled from the spec: \<^verbatim>\<open>get_dive\<close> and the \<^verbatim>\<open>for_each_dive\<close> iteration are
  declared in \<^verbatim>\<open>dive.h\<close>; the store is "indexable by position", and a position
  outside the table yields no dive.
\<close>

definition get_dive :: "divelist \<Rightarrow> int \<Rightarrow> dive_ptr option" where
  "get_dive st nr =
     (if nr < 0 \<or> int (length (dive_table st)) \<le> nr then None else Some (dive_table st ! nat nr))"

subsection \<open>The registry of trips\<close>

text \<open>\<^verbatim>\<open>find_trip_by_idx\<close> (lines 1032-1045).\<close>

definition find_trip_by_idx :: "divelist \<Rightarrow> int \<Rightarrow> trip_ptr option" where
  "find_trip_by_idx st idx =
     (if idx \<ge> 0 then None
      else find (\<lambda>trip. index (trip_heap st trip) = idx) (dive_trip_list st))"

text \<open>
  \<^verbatim>\<open>find_matching_trip\<close> (lines 1048-1071): the walk \<^verbatim>\<open>while (trip->next &&
  trip->next->when <= when)\<close> from the head.
\<close>

fun find_matching_walk :: "(trip_ptr \<Rightarrow> dive_trip) \<Rightarrow> int \<Rightarrow> trip_ptr \<Rightarrow> trip_ptr list \<Rightarrow> trip_ptr" where
  "find_matching_walk h when trip [] = trip"
| "find_matching_walk h when trip (n # ns) =
     (if trip_when (h n) \<le> when then find_matching_walk h when n ns else trip)"

definition find_matching_trip :: "divelist \<Rightarrow> int \<Rightarrow> trip_ptr option" where
  "find_matching_trip st when =
     (case dive_trip_list st of
        [] \<Rightarrow> None
      | trip # rest \<Rightarrow>
          if trip_when (trip_heap st trip) > when then None
          else Some (find_matching_walk (trip_heap st) when trip rest))"

text \<open>
  \<^verbatim>\<open>delete_trip\<close> (lines 1107-1129): the assertion, then the removal of the first
  entry of the registry that is this trip.
\<close>

definition delete_trip :: "trip_ptr \<Rightarrow> divelist \<Rightarrow> divelist option" where
  "delete_trip trip st =
     (if dives (trip_heap st trip) \<noteq> None then None
      else Some (st\<lparr>dive_trip_list := remove1 trip (dive_trip_list st)\<rparr>))"

text \<open>
  \<^verbatim>\<open>find_new_trip_start_time\<close> (lines 1131-1141): the loop over \<^verbatim>\<open>dive->next\<close>
  follows pointers of the heap and need not end; it is a partial function, and no
  result is \<open>None\<close>. Reading \<^verbatim>\<open>trip->dives->when\<close> of a trip without dives is a null
  dereference.
\<close>

partial_function (option) min_when_loop :: "(dive_ptr \<Rightarrow> dive) \<Rightarrow> dive_ptr option \<Rightarrow> int \<Rightarrow> int option" where
  "min_when_loop h dive when =
     (case dive of
        None \<Rightarrow> Some when
      | Some d \<Rightarrow> min_when_loop h (dive_next (h d)) (if dive_when (h d) < when then dive_when (h d) else when))"

declare min_when_loop.simps [code]

definition find_new_trip_start_time :: "trip_ptr \<Rightarrow> divelist \<Rightarrow> divelist option" where
  "find_new_trip_start_time trip st =
     (case dives (trip_heap st trip) of
        None \<Rightarrow> None
      | Some d \<Rightarrow>
          (case min_when_loop (dive_heap st) (dive_next (dive_heap st d)) (dive_when (dive_heap st d)) of
             None \<Rightarrow> None
           | Some when \<Rightarrow> Some (trip_upd trip (\<lambda>x. x\<lparr>trip_when := when\<rparr>) st)))"

subsection \<open>Moving dives between trips\<close>

text \<open>
  \<^verbatim>\<open>remove_dive_from_trip\<close> (lines 1143-1165). \<open>None\<close> stands for a run that does
  not return normally: a failed assertion or a store through a null \<^verbatim>\<open>pprev\<close>.
\<close>

definition remove_dive_from_trip :: "dive_ptr \<Rightarrow> divelist \<Rightarrow> divelist option" where
  "remove_dive_from_trip dive st =
     (case divetrip (dive_heap st dive) of
        None \<Rightarrow> Some st
      | Some trip \<Rightarrow>
          let next = dive_next (dive_heap st dive);
              pprev' = pprev (dive_heap st dive)
          in (case pprev' of
                None \<Rightarrow> None
              | Some l \<Rightarrow>
                  let st1 = store_link l next st;
                      st2 = (case next of
                               None \<Rightarrow> st1
                             | Some n \<Rightarrow> dive_upd n (\<lambda>x. x\<lparr>pprev := pprev'\<rparr>) st1);
                      st3 = dive_upd dive (\<lambda>x. x\<lparr>divetrip := None, tripflag := NO_TRIP\<rparr>) st2
                  in if \<not> nrdives (trip_heap st3 trip) > 0 then None
                     else
                       let st4 = trip_upd trip (\<lambda>x. x\<lparr>nrdives := nrdives x - 1\<rparr>) st3
                       in if nrdives (trip_heap st4 trip) = 0 then delete_trip trip st4
                          else if trip_when (trip_heap st4 trip) = dive_when (dive_heap st4 dive)
                          then find_new_trip_start_time trip st4
                          else Some st4))"

text \<open>\<^verbatim>\<open>add_dive_to_trip\<close> (lines 1167-1186).\<close>

definition add_dive_to_trip :: "dive_ptr \<Rightarrow> trip_ptr \<Rightarrow> divelist \<Rightarrow> divelist option" where
  "add_dive_to_trip dive trip st =
     (if divetrip (dive_heap st dive) = Some trip then Some st
      else if trip_when (trip_heap st trip) = 0 then None
      else
        (case remove_dive_from_trip dive st of
           None \<Rightarrow> None
         | Some st1 \<Rightarrow>
             let st2 = trip_upd trip (\<lambda>x. x\<lparr>nrdives := nrdives x + 1\<rparr>) st1;
                 st3 = dive_upd dive (\<lambda>x. x\<lparr>divetrip := Some trip, tripflag := ASSIGNED_TRIP\<rparr>) st2;
                 st4 = dive_upd dive (\<lambda>x. x\<lparr>dive_next := dives (trip_heap st3 trip)\<rparr>) st3;
                 st5 = (case dive_next (dive_heap st4 dive) of
                          None \<Rightarrow> st4
                        | Some n \<Rightarrow> dive_upd n (\<lambda>x. x\<lparr>pprev := Some (Dive_next dive)\<rparr>) st4);
                 st6 = trip_upd trip (\<lambda>x. x\<lparr>dives := Some dive\<rparr>) st5;
                 st7 = dive_upd dive (\<lambda>x. x\<lparr>pprev := Some (Trip_dives trip)\<rparr>) st6
             in if dive_when (dive_heap st7 dive) \<noteq> 0 \<and>
                   trip_when (trip_heap st7 trip) > dive_when (dive_heap st7 dive)
                then Some (trip_upd trip (\<lambda>x. x\<lparr>trip_when := dive_when (dive_heap st7 dive)\<rparr>) st7)
                else Some st7))"

text \<open>
  \<^verbatim>\<open>insert_trip\<close> (lines 1076-1105). The walk stops at the first trip of the registry
  whose start is not before the start of the draft. The loop that hands the dives of the
  draft over reads \<^verbatim>\<open>divep->next\<close> after the call of \<^verbatim>\<open>add_dive_to_trip\<close>, in the
  state that the call has left. The result is the new value of \<^verbatim>\<open>*dive_trip_p\<close>
  with the new state.
\<close>

partial_function (option) insert_trip_dives :: "dive_ptr option \<Rightarrow> trip_ptr \<Rightarrow> divelist \<Rightarrow> divelist option" where
  "insert_trip_dives divep trip st =
     (case divep of
        None \<Rightarrow> Some st
      | Some d \<Rightarrow>
          (case add_dive_to_trip d trip st of
             None \<Rightarrow> None
           | Some st' \<Rightarrow> insert_trip_dives (dive_next (dive_heap st' d)) trip st'))"

declare insert_trip_dives.simps [code]

definition insert_trip :: "trip_ptr \<Rightarrow> divelist \<Rightarrow> (trip_ptr \<times> divelist) option" where
  "insert_trip dive_trip st =
     (let earlier = takeWhile (\<lambda>trip. trip_when (trip_heap st trip) < trip_when (trip_heap st dive_trip))
                      (dive_trip_list st);
          later = dropWhile (\<lambda>trip. trip_when (trip_heap st trip) < trip_when (trip_heap st dive_trip))
                      (dive_trip_list st)
      in case later of
           trip # _ \<Rightarrow>
             if trip_when (trip_heap st trip) = trip_when (trip_heap st dive_trip) then
               let st1 = (if trip_location (trip_heap st trip) = None
                          then trip_upd trip (\<lambda>x. x\<lparr>trip_location := trip_location (trip_heap st dive_trip)\<rparr>) st
                          else st);
                   st2 = (if trip_notes (trip_heap st1 trip) = None
                          then trip_upd trip (\<lambda>x. x\<lparr>trip_notes := trip_notes (trip_heap st1 dive_trip)\<rparr>) st1
                          else st1)
               in (case insert_trip_dives (dives (trip_heap st2 dive_trip)) trip st2 of
                     None \<Rightarrow> None
                   | Some st3 \<Rightarrow> Some (trip, st3))
             else Some (dive_trip, st\<lparr>dive_trip_list := earlier @ dive_trip # later\<rparr>)
         | [] \<Rightarrow> Some (dive_trip, st\<lparr>dive_trip_list := earlier @ [dive_trip]\<rparr>))"

text \<open>
  \<^verbatim>\<open>create_and_hookup_trip_from_dive\<close> (lines 1188-1199): \<^verbatim>\<open>calloc\<close> returns a
  zeroed trip at the next unused address.
\<close>

definition zeroed_trip :: dive_trip where
  "zeroed_trip = \<lparr>trip_when = 0, trip_location = None, trip_notes = None, dives = None, nrdives = 0,
     index = 0, autogen = False\<rparr>"

definition create_and_hookup_trip_from_dive :: "dive_ptr \<Rightarrow> divelist \<Rightarrow> (trip_ptr \<times> divelist) option" where
  "create_and_hookup_trip_from_dive dive st =
     (let dive_trip = trips_allocated st;
          st1 = st\<lparr>trip_heap := (trip_heap st)(dive_trip := zeroed_trip), trips_allocated := dive_trip + 1\<rparr>;
          st2 = trip_upd dive_trip (\<lambda>x. x\<lparr>trip_when := dive_when (dive_heap st1 dive)\<rparr>) st1;
          st3 = (if dive_location (dive_heap st2 dive) \<noteq> None
                 then trip_upd dive_trip (\<lambda>x. x\<lparr>trip_location := dive_location (dive_heap st2 dive)\<rparr>) st2
                 else st2)
      in case insert_trip dive_trip st3 of
           None \<Rightarrow> None
         | Some (trip, st4) \<Rightarrow>
             let st5 = dive_upd dive (\<lambda>x. x\<lparr>tripflag := IN_TRIP\<rparr>) st4
             in (case add_dive_to_trip dive trip st5 of
                   None \<Rightarrow> None
                 | Some st6 \<Rightarrow> Some (trip, st6)))"




text \<open>
  The part of \<^verbatim>\<open>merge_trips_cb\<close> (lines 2036-2039) that works on the trips: the two
  trips are looked up by the dates of the two rows of the tree view, then every dive of
  \<^verbatim>\<open>thistrip\<close> is moved.
\<close>

partial_function (option) merge_trips_loop :: "trip_ptr \<Rightarrow> trip_ptr \<Rightarrow> divelist \<Rightarrow> divelist option" where
  "merge_trips_loop thistrip prevtrip st =
     (case dives (trip_heap st thistrip) of
        None \<Rightarrow> Some st
      | Some d \<Rightarrow>
          (case add_dive_to_trip d prevtrip st of
             None \<Rightarrow> None
           | Some st' \<Rightarrow> merge_trips_loop thistrip prevtrip st'))"

declare merge_trips_loop.simps [code]

definition merge_trips :: "trip_ptr \<Rightarrow> trip_ptr \<Rightarrow> divelist \<Rightarrow> divelist option" where
  "merge_trips thistrip prevtrip st =
     (if thistrip = prevtrip then None else merge_trips_loop thistrip prevtrip st)"

definition merge_trips_cb :: "int \<Rightarrow> int \<Rightarrow> divelist \<Rightarrow> divelist option" where
  "merge_trips_cb this_when prev_when st =
     (case find_matching_trip st this_when of
        None \<Rightarrow> None
      | Some thistrip \<Rightarrow>
          (case find_matching_trip st prev_when of
             None \<Rightarrow> None
           | Some prevtrip \<Rightarrow> merge_trips thistrip prevtrip st))"


subsection \<open>The backward walk of the decompression replay\<close>

text \<open>
  \<^verbatim>\<open>get_divenr\<close> (lines 753-759): the first position of the dive in the table, or the
  length of the table.
\<close>

definition get_divenr :: "divelist \<Rightarrow> dive_ptr \<Rightarrow> nat" where
  "get_divenr st dive = length (takeWhile (\<lambda>d. d \<noteq> dive) (dive_table st))"

text \<open>
  The first loop of \<^verbatim>\<open>init_decompression\<close> (lines 777-787), \<^verbatim>\<open>while (i && --i)\<close>,
  on its variables \<open>i\<close>, \<open>when\<close> and \<open>lasttime\<close>; the result is their value when
  the loop is left. With a target in a trip the source reads \<^verbatim>\<open>pdive->divetrip\<close>
  before it tests \<^verbatim>\<open>pdive\<close>. The sums \<^verbatim>\<open>pdive->when + pdive->duration.seconds + 48 * 60 * 60\<close>
  and \<^verbatim>\<open>when + pdive->duration.seconds\<close> are 64-bit additions.
\<close>

fun deco_walk_back :: "divelist \<Rightarrow> dive_ptr \<Rightarrow> nat \<Rightarrow> int \<Rightarrow> int \<Rightarrow> (nat \<times> int \<times> int) option" where
  "deco_walk_back st dive 0 when lasttime = Some (0, when, lasttime)"
| "deco_walk_back st dive (Suc i) when lasttime =
     (if i = 0 then Some (0, when, lasttime)
      else
        (case get_dive st (int i) of
           None \<Rightarrow> (if divetrip (dive_heap st dive) \<noteq> None then None else Some (i, when, lasttime))
         | Some pdive \<Rightarrow>
             if divetrip (dive_heap st dive) \<noteq> None \<and>
                divetrip (dive_heap st pdive) \<noteq> divetrip (dive_heap st dive)
             then deco_walk_back st dive i when lasttime
             else if dive_when (dive_heap st pdive) > when \<or>
                     int64 (int64 (dive_when (dive_heap st pdive) + duration_seconds (dive_heap st pdive))
                            + 48 * 60 * 60) < when
             then Some (i, when, lasttime)
             else deco_walk_back st dive i (dive_when (dive_heap st pdive))
                    (int64 (dive_when (dive_heap st pdive) + duration_seconds (dive_heap st pdive)))))"

definition init_decompression_walk :: "divelist \<Rightarrow> dive_ptr \<Rightarrow> (nat \<times> int \<times> int) option" where
  "init_decompression_walk st dive =
     deco_walk_back st dive (get_divenr st dive) (dive_when (dive_heap st dive)) 0"

text \<open>
  The range in which the additions of the walk do not wrap: the dives of the table have a
  duration that is not negative, and their start and their end plus 48 hours are 64-bit
  values.
\<close>

definition deco_in_range :: "divelist \<Rightarrow> bool" where
  "deco_in_range st =
     (\<forall>p \<in> set (dive_table st).
        0 \<le> duration_seconds (dive_heap st p) \<and>
        - 9223372036854775808 \<le> dive_when (dive_heap st p) \<and>
        dive_when (dive_heap st p) + duration_seconds (dive_heap st p) + 48 * 60 * 60 < 9223372036854775808)"

text \<open>
  The vocabulary of the walk. A prior dive counts when the target has no trip or the dive
  is in the trip of the target; a dive without a trip does not count for a target that
  has a trip. The walk keeps a reference time: the start of the counted
  dive it has accepted last, or the start of the target. At a position \<open>k\<close> this is the
  start of the first counted dive at or after \<open>k\<close> and before the target; the companion
  \<open>deco_lasttime\<close> is the end of that dive, or zero.
\<close>

definition deco_counts :: "divelist \<Rightarrow> dive_ptr \<Rightarrow> dive_ptr \<Rightarrow> bool" where
  "deco_counts st dive pdive =
     (divetrip (dive_heap st dive) = None \<or> divetrip (dive_heap st pdive) = divetrip (dive_heap st dive))"

definition deco_gap :: "divelist \<Rightarrow> dive_ptr \<Rightarrow> int \<Rightarrow> bool" where
  "deco_gap st pdive when =
     (dive_when (dive_heap st pdive) > when \<or>
      dive_when (dive_heap st pdive) + duration_seconds (dive_heap st pdive) + 48 * 60 * 60 < when)"

definition deco_counted_from :: "divelist \<Rightarrow> dive_ptr \<Rightarrow> nat \<Rightarrow> dive_ptr list" where
  "deco_counted_from st dive k =
     filter (deco_counts st dive) (drop k (take (get_divenr st dive) (dive_table st)))"

definition deco_when :: "divelist \<Rightarrow> dive_ptr \<Rightarrow> nat \<Rightarrow> int" where
  "deco_when st dive k =
     (case deco_counted_from st dive k of
        [] \<Rightarrow> dive_when (dive_heap st dive)
      | p # _ \<Rightarrow> dive_when (dive_heap st p))"

definition deco_lasttime :: "divelist \<Rightarrow> dive_ptr \<Rightarrow> nat \<Rightarrow> int" where
  "deco_lasttime st dive k =
     (case deco_counted_from st dive k of
        [] \<Rightarrow> 0
      | p # _ \<Rightarrow> dive_when (dive_heap st p) + duration_seconds (dive_heap st p))"

text \<open>
  The reading of C3 as it is stated: the walk stops at the first counted dive, going
  back from the target, whose end plus 48 hours is before the start of the target, and
  at position 0 when there is none.
\<close>

definition deco_stop_by_target :: "divelist \<Rightarrow> dive_ptr \<Rightarrow> nat" where
  "deco_stop_by_target st dive =
     (case find (\<lambda>i. deco_counts st dive (dive_table st ! i) \<and>
                     dive_when (dive_heap st (dive_table st ! i)) +
                     duration_seconds (dive_heap st (dive_table st ! i)) + 48 * 60 * 60
                       < dive_when (dive_heap st dive))
             (rev [0 ..< get_divenr st dive]) of
        None \<Rightarrow> 0
      | Some i \<Rightarrow> i)"

subsection \<open>Example states\<close>

definition plain_dive :: "int \<Rightarrow> int \<Rightarrow> dive" where
  "plain_dive when dur = \<lparr>dive_when = when, duration_seconds = dur, dive_location = None,
     divetrip = None, dive_next = None, pprev = None, tripflag = TF_NONE, selected = False,
     cylinder = [], dc = \<lparr>samples = [], dc_duration_seconds = dur, meandepth_mm = 0\<rparr>\<rparr>"

definition member_dive :: "int \<Rightarrow> int \<Rightarrow> trip_ptr \<Rightarrow> dive_ptr option \<Rightarrow> dive_link \<Rightarrow> dive" where
  "member_dive when dur trip nxt prv = (plain_dive when dur)\<lparr>divetrip := Some trip, dive_next := nxt,
     pprev := Some prv, tripflag := IN_TRIP\<rparr>"

text \<open>
  Four dives without trips: the target at 80 hours, dives of one hour at 40 hours and at
  0 hours, and an older dive at the first position of the table.
\<close>

definition deco_example :: divelist where
  "deco_example = \<lparr>
     dive_heap = (\<lambda>_. plain_dive 0 0)
       (0 := plain_dive (- 1000000) 3600,
        1 := plain_dive 0 3600,
        2 := plain_dive 144000 3600,
        3 := plain_dive 288000 3600),
     trip_heap = (\<lambda>_. zeroed_trip),
     trips_allocated = 0,
     dive_trip_list = [],
     dive_table = [0, 1, 2, 3]\<rparr>"

subsection \<open>Properties of the backward walk\<close>

lemma get_divenr_le: "get_divenr st dive \<le> length (dive_table st)"
  by (simp add: get_divenr_def length_takeWhile_le)

lemma deco_counted_from_step:
  assumes "k < get_divenr st dive"
  shows "deco_counted_from st dive k =
     (if deco_counts st dive (dive_table st ! k)
      then dive_table st ! k # deco_counted_from st dive (Suc k)
      else deco_counted_from st dive (Suc k))"
proof -
  let ?t = "take (get_divenr st dive) (dive_table st)"
  have "k < length ?t" using assms get_divenr_le [of st dive] by simp
  then have "drop k ?t = ?t ! k # drop (Suc k) ?t"
    by (rule Cons_nth_drop_Suc [symmetric])
  moreover have "?t ! k = dive_table st ! k" using assms by simp
  ultimately show ?thesis by (simp add: deco_counted_from_def)
qed

lemma deco_counted_from_end:
  "get_divenr st dive \<le> k \<Longrightarrow> deco_counted_from st dive k = []"
  by (simp add: deco_counted_from_def)

lemma get_dive_in_table:
  "k < length (dive_table st) \<Longrightarrow> get_dive st (int k) = Some (dive_table st ! k)"
  by (simp add: get_dive_def)

lemma int64_id: "- 9223372036854775808 \<le> x \<Longrightarrow> x < 9223372036854775808 \<Longrightarrow> int64 x = x"
  by (simp add: int64_def)

lemma deco_in_range_sums:
  assumes "deco_in_range st" "k < length (dive_table st)"
  shows "int64 (dive_when (dive_heap st (dive_table st ! k)) +
                duration_seconds (dive_heap st (dive_table st ! k))) =
         dive_when (dive_heap st (dive_table st ! k)) + duration_seconds (dive_heap st (dive_table st ! k))"
    and "int64 (dive_when (dive_heap st (dive_table st ! k)) +
                duration_seconds (dive_heap st (dive_table st ! k)) + 172800) =
         dive_when (dive_heap st (dive_table st ! k)) +
         duration_seconds (dive_heap st (dive_table st ! k)) + 172800"
proof -
  from assms(2) have "dive_table st ! k \<in> set (dive_table st)" by simp
  with assms(1) have
    "0 \<le> duration_seconds (dive_heap st (dive_table st ! k))"
    "- 9223372036854775808 \<le> dive_when (dive_heap st (dive_table st ! k))"
    "dive_when (dive_heap st (dive_table st ! k)) + duration_seconds (dive_heap st (dive_table st ! k))
       + 172800 < 9223372036854775808"
    unfolding deco_in_range_def by fastforce+
  then show
    "int64 (dive_when (dive_heap st (dive_table st ! k)) +
                duration_seconds (dive_heap st (dive_table st ! k))) =
         dive_when (dive_heap st (dive_table st ! k)) + duration_seconds (dive_heap st (dive_table st ! k))"
    "int64 (dive_when (dive_heap st (dive_table st ! k)) +
                duration_seconds (dive_heap st (dive_table st ! k)) + 172800) =
         dive_when (dive_heap st (dive_table st ! k)) +
         duration_seconds (dive_heap st (dive_table st ! k)) + 172800"
    by (simp_all add: int64_id)
qed

lemma deco_walk_back_from:
  assumes "m \<le> get_divenr st dive" "0 < m" and rng: "deco_in_range st"
  shows "\<exists>i. deco_walk_back st dive m (deco_when st dive m) (deco_lasttime st dive m) =
             Some (i, deco_when st dive (Suc i), deco_lasttime st dive (Suc i)) \<and>
           i < m \<and>
           (i = 0 \<or> deco_counts st dive (dive_table st ! i) \<and>
                     deco_gap st (dive_table st ! i) (deco_when st dive (Suc i))) \<and>
           (\<forall>j. i < j \<and> j < m \<and> deco_counts st dive (dive_table st ! j) \<longrightarrow>
                \<not> deco_gap st (dive_table st ! j) (deco_when st dive (Suc j)))"
  using assms
proof (induction m)
  case 0
  then show ?case by simp
next
  case (Suc j)
  show ?case
  proof (cases "j = 0")
    case True
    then show ?thesis by simp
  next
    case False
    let ?p = "dive_table st ! j"
    let ?w = "deco_when st dive (Suc j)" and ?l = "deco_lasttime st dive (Suc j)"
    from Suc.prems have jn: "j < get_divenr st dive" by simp
    then have jl: "j < length (dive_table st)" using get_divenr_le [of st dive] by simp
    then have gd: "get_dive st (int j) = Some ?p" by (rule get_dive_in_table)
    note sums = deco_in_range_sums [OF rng jl]
    from Suc.IH jn False rng obtain i where
      IH: "deco_walk_back st dive j (deco_when st dive j) (deco_lasttime st dive j) =
             Some (i, deco_when st dive (Suc i), deco_lasttime st dive (Suc i))"
          "i < j"
          "i = 0 \<or> deco_counts st dive (dive_table st ! i) \<and>
                     deco_gap st (dive_table st ! i) (deco_when st dive (Suc i))"
          "\<forall>k. i < k \<and> k < j \<and> deco_counts st dive (dive_table st ! k) \<longrightarrow>
                \<not> deco_gap st (dive_table st ! k) (deco_when st dive (Suc k))"
      by auto
    show ?thesis
    proof (cases "deco_counts st dive ?p")
      case skipped: False
      then have same: "deco_when st dive j = ?w" "deco_lasttime st dive j = ?l"
        using deco_counted_from_step [OF jn] by (simp_all add: deco_when_def deco_lasttime_def)
      have "deco_walk_back st dive (Suc j) ?w ?l = deco_walk_back st dive j ?w ?l"
        using False gd skipped by (simp add: deco_counts_def)
      with IH same skipped show ?thesis
        by (metis less_Suc_eq)
    next
      case counted: True
      show ?thesis
      proof (cases "deco_gap st ?p ?w")
        case True
        have "deco_walk_back st dive (Suc j) ?w ?l = Some (j, ?w, ?l)"
          using False gd counted True by (auto simp: deco_counts_def deco_gap_def sums)
        with counted True show ?thesis by auto
      next
        case accepted: False
        have now: "deco_when st dive j = dive_when (dive_heap st ?p)"
          "deco_lasttime st dive j = dive_when (dive_heap st ?p) + duration_seconds (dive_heap st ?p)"
          using deco_counted_from_step [OF jn] counted by (simp_all add: deco_when_def deco_lasttime_def)
        have "deco_walk_back st dive (Suc j) ?w ?l =
            deco_walk_back st dive j (deco_when st dive j) (deco_lasttime st dive j)"
          using False gd counted accepted now by (auto simp: deco_counts_def deco_gap_def sums)
        with IH accepted show ?thesis
          by (metis less_Suc_eq)
      qed
    qed
  qed
qed

text \<open>
  C3, as stated: the walk would stop at the first counted dive whose end plus 48 hours
  is before the start of the target. In the example that is the dive at position 1
  (it ends at 1 hour, the target starts at 80 hours), but the walk accepts it, because
  it starts less than 48 hours before the dive at 40 hours, and runs to position 0 with
  the start and the end of the dive at position 1 as its reference times.
\<close>

theorem init_decompression_walk_counterexample:
  "init_decompression_walk deco_example 3 = Some (0, 0, 3600) \<and>
   deco_stop_by_target deco_example 3 = 1"
  by (simp add: init_decompression_walk_def deco_stop_by_target_def get_divenr_def get_dive_def
      deco_counts_def deco_example_def plain_dive_def int64_def numeral_3_eq_3 upt_rec)

text \<open>
  C3, amended: on a table whose dives have 64-bit times that the additions of the walk do
  not wrap (\<open>deco_in_range\<close>), the walk always returns. When the target has a trip, it
  skips every prior dive that is not in the trip of the target: the dives of other trips
  and the dives without a trip. It compares every other prior dive with the start of the
  dive it accepted just before (the start of the target for the first one): it stops at
  the first such dive that starts after that time or whose end plus 48 hours is before
  that time, and all dives it passed on the way are within 48 hours of the dive accepted
  before them; or it stops when position 0 is reached. The times it returns are the
  start and the end of the earliest accepted dive.
\<close>

theorem init_decompression_walk_stops:
  assumes "deco_in_range st"
  shows "\<exists>i. init_decompression_walk st dive =
          Some (i, deco_when st dive (Suc i), deco_lasttime st dive (Suc i)) \<and>
        (i = 0 \<or> i < get_divenr st dive \<and> deco_counts st dive (dive_table st ! i) \<and>
                  deco_gap st (dive_table st ! i) (deco_when st dive (Suc i))) \<and>
        (\<forall>j. i < j \<and> j < get_divenr st dive \<and> deco_counts st dive (dive_table st ! j) \<longrightarrow>
             \<not> deco_gap st (dive_table st ! j) (deco_when st dive (Suc j)))"
proof (cases "get_divenr st dive = 0")
  case True
  then have "deco_counted_from st dive k = []" for k
    by (simp add: deco_counted_from_def)
  with True show ?thesis
    by (simp add: init_decompression_walk_def deco_when_def deco_lasttime_def)
next
  case False
  let ?n = "get_divenr st dive"
  have "deco_when st dive ?n = dive_when (dive_heap st dive)" "deco_lasttime st dive ?n = 0"
    by (simp_all add: deco_when_def deco_lasttime_def deco_counted_from_end)
  with deco_walk_back_from [of ?n st dive] False assms show ?thesis
    unfolding init_decompression_walk_def by (auto simp del: deco_walk_back.simps)
qed

theorem init_decompression_walk_stops_witness:
  "init_decompression_walk deco_example 3 = Some (0, 0, 3600) \<and>
   \<not> deco_gap deco_example 1 144000 \<and> \<not> deco_gap deco_example 2 288000"
proof -
  have w: "init_decompression_walk deco_example 3 = Some (0, 0, 3600)"
    by (simp add: init_decompression_walk_def get_divenr_def get_dive_def deco_example_def plain_dive_def
        int64_def)
  have rng: "deco_in_range deco_example"
    by (simp add: deco_in_range_def deco_example_def plain_dive_def)
  have n: "get_divenr deco_example 3 = 3"
    by (simp add: get_divenr_def deco_example_def)
  have c: "deco_counts deco_example 3 p" for p
    by (simp add: deco_counts_def deco_example_def plain_dive_def)
  have t: "dive_table deco_example = [0, 1, 2, 3]"
    by (simp add: deco_example_def)
  have w2: "deco_when deco_example 3 2 = 144000" and w3: "deco_when deco_example 3 3 = 288000"
    by (simp_all add: deco_when_def deco_counted_from_def n t c) (simp_all add: deco_example_def plain_dive_def)
  from init_decompression_walk_stops [OF rng, of 3] obtain i where
    "init_decompression_walk deco_example 3 =
       Some (i, deco_when deco_example 3 (Suc i), deco_lasttime deco_example 3 (Suc i))"
    and passed: "\<forall>j. i < j \<and> j < get_divenr deco_example 3 \<and> deco_counts deco_example 3 (dive_table deco_example ! j) \<longrightarrow>
             \<not> deco_gap deco_example (dive_table deco_example ! j) (deco_when deco_example 3 (Suc j))"
    by blast
  with w have "i = 0" by simp
  note i0 = this
  have "\<not> deco_gap deco_example (dive_table deco_example ! 1) (deco_when deco_example 3 (Suc 1))"
    using passed [rule_format, of 1] i0 n c by simp
  moreover
  have "\<not> deco_gap deco_example (dive_table deco_example ! 2) (deco_when deco_example 3 (Suc 2))"
    using passed [rule_format, of 2] i0 n c by simp
  ultimately show ?thesis using w w2 w3 t by (simp add: numeral_2_eq_2 numeral_3_eq_3)
qed

text \<open>
  A registry with the trip at address 0, whose only dive is dive 0, and a draft trip at
  address 1 that is not in the registry and has the same start time; the draft carries a
  location and two pending dives, 1 and 2, linked in this order.
\<close>

definition draft_example :: divelist where
  "draft_example = \<lparr>
     dive_heap = (\<lambda>_. plain_dive 0 0)
       (0 := member_dive 100 60 0 None (Trip_dives 0),
        1 := member_dive 100 60 1 (Some 2) (Trip_dives 1),
        2 := member_dive 200 60 1 None (Dive_next 1)),
     trip_heap = (\<lambda>_. zeroed_trip)
       (0 := zeroed_trip\<lparr>trip_when := 100, dives := Some 0, nrdives := 1, index := - 1\<rparr>,
        1 := zeroed_trip\<lparr>trip_when := 100, trip_location := Some ''Reef'', dives := Some 1, nrdives := 2\<rparr>),
     trips_allocated = 2,
     dive_trip_list = [0],
     dive_table = [0, 1, 2]\<rparr>"

lemmas trip_ops_defs = add_dive_to_trip_def remove_dive_from_trip_def store_link_def dive_upd_def
  trip_upd_def find_new_trip_start_time_def delete_trip_def

subsection \<open>Removing the only dive of a trip\<close>

text \<open>
  C7. When a dive is the only member of its trip (it is the head of the trip's list, has
  no successor, and the trip counts one dive), \<open>remove_dive_from_trip\<close> returns, the
  trip is no longer in the registry, and (identifiers being unique in the registry)
  \<open>find_trip_by_idx\<close> on the identifier of the trip finds nothing.
\<close>

theorem remove_sole_dive_deletes_trip:
  assumes "divetrip (dive_heap st dive) = Some trip"
    and "pprev (dive_heap st dive) = Some (Trip_dives trip)"
    and "dive_next (dive_heap st dive) = None"
    and "nrdives (trip_heap st trip) = 1"
    and "distinct (dive_trip_list st)"
    and "\<forall>t \<in> set (dive_trip_list st). t \<noteq> trip \<longrightarrow> index (trip_heap st t) \<noteq> index (trip_heap st trip)"
  shows "\<exists>st'. remove_dive_from_trip dive st = Some st' \<and>
           trip \<notin> set (dive_trip_list st') \<and>
           dive_trip_list st' = remove1 trip (dive_trip_list st) \<and>
           divetrip (dive_heap st' dive) = None \<and>
           find_trip_by_idx st' (index (trip_heap st trip)) = None"
proof -
  let ?st' = "(trip_upd trip (\<lambda>x. x\<lparr>nrdives := nrdives x - 1\<rparr>)
      (dive_upd dive (\<lambda>x. x\<lparr>divetrip := None, tripflag := NO_TRIP\<rparr>)
        (trip_upd trip (\<lambda>x. x\<lparr>dives := None\<rparr>) st)))\<lparr>dive_trip_list := remove1 trip (dive_trip_list st)\<rparr>"
  have r: "remove_dive_from_trip dive st = Some ?st'"
    using assms(1-4) by (simp add: trip_ops_defs Let_def)
  have gone: "trip \<notin> set (dive_trip_list ?st')"
    using assms(5) by simp
  have idx: "index (trip_heap ?st' t) = index (trip_heap st t)" for t
    by (simp add: trip_upd_def dive_upd_def)
  have "\<forall>t \<in> set (dive_trip_list ?st'). index (trip_heap ?st' t) \<noteq> index (trip_heap st trip)"
  proof
    fix t assume t: "t \<in> set (dive_trip_list ?st')"
    then have "t \<in> set (dive_trip_list st)" using set_remove1_subset [of trip "dive_trip_list st"] by auto
    moreover from t gone have "t \<noteq> trip" by auto
    ultimately show "index (trip_heap ?st' t) \<noteq> index (trip_heap st trip)"
      using assms(6) idx by simp
  qed
  then have "find (\<lambda>t. index (trip_heap ?st' t) = index (trip_heap st trip)) (dive_trip_list ?st') = None"
    by (simp add: find_None_iff)
  then have f: "find_trip_by_idx ?st' (index (trip_heap st trip)) = None"
    by (simp add: find_trip_by_idx_def)
  have "divetrip (dive_heap ?st' dive) = None"
    by (simp add: trip_upd_def dive_upd_def)
  with r gone f show ?thesis by simp
qed

theorem remove_sole_dive_deletes_trip_witness:
  "find_trip_by_idx draft_example (- 1) = Some 0 \<and>
   (\<exists>st'. remove_dive_from_trip 0 draft_example = Some st' \<and>
      dive_trip_list st' = [] \<and> find_trip_by_idx st' (- 1) = None)"
proof -
  have "find_trip_by_idx draft_example (- 1) = Some 0"
    by (simp add: find_trip_by_idx_def draft_example_def zeroed_trip_def)
  moreover have "index (trip_heap draft_example 0) = - 1" "dive_trip_list draft_example = [0]"
    by (simp_all add: draft_example_def)
  moreover have "\<exists>st'. remove_dive_from_trip 0 draft_example = Some st' \<and>
           0 \<notin> set (dive_trip_list st') \<and>
           dive_trip_list st' = remove1 0 (dive_trip_list draft_example) \<and>
           divetrip (dive_heap st' 0) = None \<and>
           find_trip_by_idx st' (index (trip_heap draft_example 0)) = None"
    by (rule remove_sole_dive_deletes_trip) (simp_all add: draft_example_def member_dive_def plain_dive_def)
  ultimately show ?thesis by auto
qed

subsection \<open>Inserting a draft trip that collides with a registered trip\<close>

text \<open>
  C2. The draft of \<open>draft_example\<close> starts at the same time as the registered trip 0 and
  has two pending dives. \<open>insert_trip\<close> returns trip 0, leaves the registry at one
  entry and copies the location; but only the first pending dive, 1, is moved to trip 0.
  After the move \<^verbatim>\<open>divep->next\<close> is the old head of trip 0, so the loop never reaches
  dive 2: it stays a member of the draft, which keeps one dive and is not in the registry.
\<close>

theorem insert_trip_leaves_pending_dive:
  "(case insert_trip 1 draft_example of
      None \<Rightarrow> False
    | Some (trip, st') \<Rightarrow>
        trip = 0 \<and> dive_trip_list st' = [0] \<and>
        trip_location (trip_heap st' 0) = Some ''Reef'' \<and>
        divetrip (dive_heap st' 1) = Some 0 \<and>
        divetrip (dive_heap st' 2) = Some 1 \<and>
        dives (trip_heap st' 1) = Some 2 \<and> nrdives (trip_heap st' 1) = 1 \<and>
        dives (trip_heap st' 0) = Some 1 \<and> dive_next (dive_heap st' 1) = Some 0 \<and>
        dive_next (dive_heap st' 0) = None \<and> nrdives (trip_heap st' 0) = 2)"
  by (simp add: insert_trip_def draft_example_def insert_trip_dives.simps trip_ops_defs
      member_dive_def plain_dive_def zeroed_trip_def min_when_loop.simps Let_def)

subsection \<open>The members of a trip\<close>

text \<open>
  \<open>linked h l p ds\<close>: starting from the pointer \<open>p\<close>, which is stored in the location
  \<open>l\<close>, the \<^verbatim>\<open>next\<close> fields lead through exactly the dives \<open>ds\<close> to a null pointer, and
  the \<^verbatim>\<open>pprev\<close> field of each dive points back at the location that holds its
  address.
\<close>

fun linked :: "(dive_ptr \<Rightarrow> dive) \<Rightarrow> dive_link \<Rightarrow> dive_ptr option \<Rightarrow> dive_ptr list \<Rightarrow> bool" where
  "linked h l p [] = (p = None)"
| "linked h l p (d # ds) =
     (p = Some d \<and> pprev (h d) = Some l \<and> linked h (Dive_next d) (dive_next (h d)) ds)"

text \<open>
  The members of a trip, read off the heap: the dives reached from \<^verbatim>\<open>trip->dives\<close>,
  at most \<^verbatim>\<open>trip->nrdives\<close> of them.
\<close>

fun follow :: "(dive_ptr \<Rightarrow> dive) \<Rightarrow> dive_ptr option \<Rightarrow> nat \<Rightarrow> dive_ptr list" where
  "follow h p 0 = []"
| "follow h None (Suc n) = []"
| "follow h (Some d) (Suc n) = d # follow h (dive_next (h d)) n"

definition members :: "divelist \<Rightarrow> trip_ptr \<Rightarrow> dive_ptr list" where
  "members st trip =
     follow (dive_heap st) (dives (trip_heap st trip)) (nat (nrdives (trip_heap st trip)))"

text \<open>
  The representation invariant of the trip bookkeeping. Every trip of the registry has
  been allocated, appears once, and its list is well linked: it holds
  \<^verbatim>\<open>nrdives\<close> different dives, each of which names the trip as its
  \<^verbatim>\<open>divetrip\<close>. A dive that names a trip is a member of that trip, and the trip is
  in the registry ("a dive belongs to at most one trip at a time").
\<close>

definition trip_linked :: "divelist \<Rightarrow> trip_ptr \<Rightarrow> bool" where
  "trip_linked st trip =
     (linked (dive_heap st) (Trip_dives trip) (dives (trip_heap st trip)) (members st trip) \<and>
      distinct (members st trip) \<and>
      (\<forall>d \<in> set (members st trip). divetrip (dive_heap st d) = Some trip) \<and>
      nrdives (trip_heap st trip) = int (length (members st trip)))"

definition registry_wf :: "divelist \<Rightarrow> bool" where
  "registry_wf st =
     (distinct (dive_trip_list st) \<and>
      (\<forall>trip \<in> set (dive_trip_list st). trip < trips_allocated st \<and> trip_linked st trip) \<and>
      (\<forall>d trip. divetrip (dive_heap st d) = Some trip \<longrightarrow>
          trip \<in> set (dive_trip_list st) \<and> d \<in> set (members st trip)))"

text \<open>
  The property of C1 for one trip: it has a member, and its start time is the least
  \<^verbatim>\<open>when\<close> of its members.
\<close>

definition start_ok :: "divelist \<Rightarrow> trip_ptr \<Rightarrow> bool" where
  "start_ok st trip =
     (members st trip \<noteq> [] \<and>
      trip_when (trip_heap st trip) = Min ((\<lambda>d. dive_when (dive_heap st d)) ` set (members st trip)))"

definition trips_ok :: "divelist \<Rightarrow> bool" where
  "trips_ok st = (registry_wf st \<and> (\<forall>trip \<in> set (dive_trip_list st). start_ok st trip))"

subsection \<open>Linked lists of dives\<close>


lemma linked_unique: "linked h l p ds \<Longrightarrow> linked h l p es \<Longrightarrow> ds = es"
proof (induction ds arbitrary: l p es)
  case Nil
  then show ?case by (cases es) auto
next
  case (Cons d ds)
  then show ?case by (cases es) auto
qed


text \<open>
  Unlinking. After \<^verbatim>\<open>*pprev = next\<close> on a dive field and
  \<^verbatim>\<open>next->pprev = pprev\<close>, the list that held \<open>d\<close> holds the other dives in
  their order.
\<close>

definition unlinked_heap :: "(dive_ptr \<Rightarrow> dive) \<Rightarrow> dive_ptr \<Rightarrow> (dive_ptr \<Rightarrow> dive)" where
  "unlinked_heap h d =
     (let h1 = (case pprev (h d) of
                  Some (Dive_next x) \<Rightarrow> h(x := (h x)\<lparr>dive_next := dive_next (h d)\<rparr>)
                | _ \<Rightarrow> h)
      in case dive_next (h d) of
           None \<Rightarrow> h1
         | Some n \<Rightarrow> h1(n := (h1 n)\<lparr>pprev := pprev (h d)\<rparr>))"









subsection \<open>The effect of removing a dive from its trip\<close>

text \<open>
  The fields of a dive that the trip bookkeeping never writes, and the parts of the
  state outside the heaps of trips and registry.
\<close>

definition same_dive_data :: "divelist \<Rightarrow> divelist \<Rightarrow> bool" where
  "same_dive_data st st' =
     (dive_table st' = dive_table st \<and>
      (\<forall>x. dive_when (dive_heap st' x) = dive_when (dive_heap st x) \<and>
           duration_seconds (dive_heap st' x) = duration_seconds (dive_heap st x) \<and>
           dive_location (dive_heap st' x) = dive_location (dive_heap st x)))"

lemma same_dive_data_refl [simp]: "same_dive_data st st"
  by (simp add: same_dive_data_def)




lemma unlinked_heap_fields:
  "dive_when (unlinked_heap h d x) = dive_when (h x)"
  "duration_seconds (unlinked_heap h d x) = duration_seconds (h x)"
  "dive_location (unlinked_heap h d x) = dive_location (h x)"
  "divetrip (unlinked_heap h d x) = divetrip (h x)"
  "tripflag (unlinked_heap h d x) = tripflag (h x)"
  by (auto simp: unlinked_heap_def Let_def split: dive_link.splits option.splits)


text \<open>
  The state of \<^verbatim>\<open>remove_dive_from_trip\<close> after the decrement of \<^verbatim>\<open>nrdives\<close>
  (line 1161), for a dive \<open>d\<close> of the trip \<open>t\<close>.
\<close>

definition unlinked_state :: "divelist \<Rightarrow> dive_ptr \<Rightarrow> trip_ptr \<Rightarrow> divelist" where
  "unlinked_state st d t =
     st\<lparr>dive_heap := (unlinked_heap (dive_heap st) d)
            (d := (unlinked_heap (dive_heap st) d d)\<lparr>divetrip := None, tripflag := NO_TRIP\<rparr>),
        trip_heap := (trip_heap st)
            (t := (trip_heap st t)
               \<lparr>dives := (if pprev (dive_heap st d) = Some (Trip_dives t)
                          then dive_next (dive_heap st d) else dives (trip_heap st t)),
                nrdives := nrdives (trip_heap st t) - 1\<rparr>)\<rparr>"



lemma unlinked_state_frame [simp]:
  "dive_trip_list (unlinked_state st d t) = dive_trip_list st"
  "trips_allocated (unlinked_state st d t) = trips_allocated st"
  "dive_table (unlinked_state st d t) = dive_table st"
  "u \<noteq> t \<Longrightarrow> trip_heap (unlinked_state st d t) u = trip_heap st u"
  "trip_when (trip_heap (unlinked_state st d t) u) = trip_when (trip_heap st u)"
  "trip_location (trip_heap (unlinked_state st d t) u) = trip_location (trip_heap st u)"
  "trip_notes (trip_heap (unlinked_state st d t) u) = trip_notes (trip_heap st u)"
  "index (trip_heap (unlinked_state st d t) u) = index (trip_heap st u)"
  "autogen (trip_heap (unlinked_state st d t) u) = autogen (trip_heap st u)"
  "dive_when (dive_heap (unlinked_state st d t) x) = dive_when (dive_heap st x)"
  "duration_seconds (dive_heap (unlinked_state st d t) x) = duration_seconds (dive_heap st x)"
  "dive_location (dive_heap (unlinked_state st d t) x) = dive_location (dive_heap st x)"
  "divetrip (dive_heap (unlinked_state st d t) x) = (if x = d then None else divetrip (dive_heap st x))"
  "nrdives (trip_heap (unlinked_state st d t) t) = nrdives (trip_heap st t) - 1"
  by (simp_all add: unlinked_state_def unlinked_heap_fields)




text \<open>
  Parts of the state that the invariant does not read: a state that agrees with another
  on the dive heap and on the \<^verbatim>\<open>dives\<close> and \<^verbatim>\<open>nrdives\<close> fields of the trips has
  the same members.
\<close>

lemma members_cong:
  assumes "dive_heap st' = dive_heap st" "dives (trip_heap st' u) = dives (trip_heap st u)"
    "nrdives (trip_heap st' u) = nrdives (trip_heap st u)"
  shows "members st' u = members st u" "trip_linked st' u = trip_linked st u"
  using assms by (simp_all add: members_def trip_linked_def)

lemma registry_wf_cong:
  assumes "dive_heap st' = dive_heap st" "dive_trip_list st' = dive_trip_list st"
    "trips_allocated st' = trips_allocated st"
    "\<forall>u. dives (trip_heap st' u) = dives (trip_heap st u) \<and> nrdives (trip_heap st' u) = nrdives (trip_heap st u)"
  shows "registry_wf st' = registry_wf st"
proof -
  have "members st' u = members st u" "trip_linked st' u = trip_linked st u" for u
    using assms(1,4) by (simp_all add: members_def trip_linked_def)
  with assms(2,3) show ?thesis by (simp add: registry_wf_def assms(1))
qed






subsection \<open>The effect of adding a dive to a trip\<close>

text \<open>
  The dive heap after \<^verbatim>\<open>add_dive_to_trip\<close> has linked \<open>d\<close> in front of the list that
  starts at \<open>p\<close> (lines 1178-1182).
\<close>

definition pushed_heap :: "(dive_ptr \<Rightarrow> dive) \<Rightarrow> dive_ptr \<Rightarrow> trip_ptr \<Rightarrow> dive_ptr option \<Rightarrow> (dive_ptr \<Rightarrow> dive)" where
  "pushed_heap h d t p =
     (let h4 = h(d := (h d)\<lparr>dive_next := p\<rparr>);
          h5 = (case p of None \<Rightarrow> h4 | Some n \<Rightarrow> h4(n := (h4 n)\<lparr>pprev := Some (Dive_next d)\<rparr>))
      in h5(d := (h5 d)\<lparr>pprev := Some (Trip_dives t)\<rparr>))"


lemma pushed_heap_fields:
  "dive_when (pushed_heap h d t p x) = dive_when (h x)"
  "duration_seconds (pushed_heap h d t p x) = duration_seconds (h x)"
  "dive_location (pushed_heap h d t p x) = dive_location (h x)"
  "divetrip (pushed_heap h d t p x) = divetrip (h x)"
  "tripflag (pushed_heap h d t p x) = tripflag (h x)"
  by (auto simp: pushed_heap_def Let_def split: option.splits)


definition linked_state :: "divelist \<Rightarrow> dive_ptr \<Rightarrow> trip_ptr \<Rightarrow> divelist" where
  "linked_state st d t =
     st\<lparr>dive_heap := pushed_heap
            ((dive_heap st)(d := (dive_heap st d)\<lparr>divetrip := Some t, tripflag := ASSIGNED_TRIP\<rparr>))
            d t (dives (trip_heap st t)),
        trip_heap := (trip_heap st)
            (t := (trip_heap st t)
               \<lparr>trip_when := (if dive_when (dive_heap st d) \<noteq> 0 \<and>
                                  trip_when (trip_heap st t) > dive_when (dive_heap st d)
                               then dive_when (dive_heap st d) else trip_when (trip_heap st t)),
                dives := Some d,
                nrdives := nrdives (trip_heap st t) + 1\<rparr>)\<rparr>"





lemma linked_state_frame [simp]:
  "dive_trip_list (linked_state st d t) = dive_trip_list st"
  "trips_allocated (linked_state st d t) = trips_allocated st"
  "dive_table (linked_state st d t) = dive_table st"
  "u \<noteq> t \<Longrightarrow> trip_heap (linked_state st d t) u = trip_heap st u"
  "trip_location (trip_heap (linked_state st d t) u) = trip_location (trip_heap st u)"
  "trip_notes (trip_heap (linked_state st d t) u) = trip_notes (trip_heap st u)"
  "index (trip_heap (linked_state st d t) u) = index (trip_heap st u)"
  "autogen (trip_heap (linked_state st d t) u) = autogen (trip_heap st u)"
  "dive_when (dive_heap (linked_state st d t) x) = dive_when (dive_heap st x)"
  "duration_seconds (dive_heap (linked_state st d t) x) = duration_seconds (dive_heap st x)"
  "dive_location (dive_heap (linked_state st d t) x) = dive_location (dive_heap st x)"
  "divetrip (dive_heap (linked_state st d t) x) = (if x = d then Some t else divetrip (dive_heap st x))"
  "nrdives (trip_heap (linked_state st d t) t) = nrdives (trip_heap st t) + 1"
  "dives (trip_heap (linked_state st d t) t) = Some d"
  by (simp_all add: linked_state_def pushed_heap_fields)



subsection \<open>Start times\<close>














subsection \<open>Merging two trips\<close>




subsection \<open>Creating a trip from a dive\<close>

text \<open>
  The trip of the registry that \<^verbatim>\<open>insert_trip\<close> finds with exactly the start time
  \<open>w\<close>, if its walk stops at one.
\<close>

definition colliding_trip :: "divelist \<Rightarrow> int \<Rightarrow> trip_ptr option" where
  "colliding_trip st w =
     (case dropWhile (\<lambda>trip. trip_when (trip_heap st trip) < w) (dive_trip_list st) of
        [] \<Rightarrow> None
      | trip # _ \<Rightarrow> if trip_when (trip_heap st trip) = w then Some trip else None)"


lemma colliding_trip_none:
  "\<forall>e \<in> set (dive_trip_list st). trip_when (trip_heap st e) \<noteq> w \<Longrightarrow> colliding_trip st w = None"
proof -
  assume a: "\<forall>e \<in> set (dive_trip_list st). trip_when (trip_heap st e) \<noteq> w"
  let ?l = "dropWhile (\<lambda>trip. trip_when (trip_heap st trip) < w) (dive_trip_list st)"
  show ?thesis
  proof (cases ?l)
    case Nil
    show ?thesis unfolding colliding_trip_def Nil by simp
  next
    case (Cons e r)
    then have "e \<in> set ?l" by simp
    then have "e \<in> set (dive_trip_list st)" by (rule set_dropWhileD)
    with a have "trip_when (trip_heap st e) \<noteq> w" by simp
    then show ?thesis unfolding colliding_trip_def Cons by simp
  qed
qed

text \<open>
  The state in which \<^verbatim>\<open>create_and_hookup_trip_from_dive\<close> calls
  \<^verbatim>\<open>insert_trip\<close>: a new trip at the next address with the time and the location of
  the dive.
\<close>

definition draft_state :: "divelist \<Rightarrow> dive_ptr \<Rightarrow> divelist" where
  "draft_state st dive =
     (let dive_trip = trips_allocated st;
          st1 = st\<lparr>trip_heap := (trip_heap st)(dive_trip := zeroed_trip), trips_allocated := dive_trip + 1\<rparr>;
          st2 = trip_upd dive_trip (\<lambda>x. x\<lparr>trip_when := dive_when (dive_heap st1 dive)\<rparr>) st1
      in if dive_location (dive_heap st2 dive) \<noteq> None
         then trip_upd dive_trip (\<lambda>x. x\<lparr>trip_location := dive_location (dive_heap st2 dive)\<rparr>) st2
         else st2)"


lemma draft_state_frame [simp]:
  "dive_heap (draft_state st d) = dive_heap st"
  "dive_trip_list (draft_state st d) = dive_trip_list st"
  "dive_table (draft_state st d) = dive_table st"
  "trips_allocated (draft_state st d) = Suc (trips_allocated st)"
  "u \<noteq> trips_allocated st \<Longrightarrow> trip_heap (draft_state st d) u = trip_heap st u"
  "trip_when (trip_heap (draft_state st d) (trips_allocated st)) = dive_when (dive_heap st d)"
  "trip_location (trip_heap (draft_state st d) (trips_allocated st)) = dive_location (dive_heap st d)"
  "trip_notes (trip_heap (draft_state st d) (trips_allocated st)) = None"
  "dives (trip_heap (draft_state st d) (trips_allocated st)) = None"
  "nrdives (trip_heap (draft_state st d) (trips_allocated st)) = 0"
  "autogen (trip_heap (draft_state st d) (trips_allocated st)) = False"
  by (auto simp: draft_state_def Let_def trip_upd_def zeroed_trip_def)

text \<open>
  \<^verbatim>\<open>insert_trip\<close> on a draft without pending dives: the location and the notes
  of the draft are copied into the colliding trip where that trip has none (lines
  1088-1091), or the draft enters the registry.
\<close>

definition copied_fields :: "divelist \<Rightarrow> trip_ptr \<Rightarrow> trip_ptr \<Rightarrow> divelist" where
  "copied_fields st trip dive_trip =
     (let st1 = (if trip_location (trip_heap st trip) = None
                 then trip_upd trip (\<lambda>x. x\<lparr>trip_location := trip_location (trip_heap st dive_trip)\<rparr>) st
                 else st)
      in if trip_notes (trip_heap st1 trip) = None
         then trip_upd trip (\<lambda>x. x\<lparr>trip_notes := trip_notes (trip_heap st1 dive_trip)\<rparr>) st1
         else st1)"

lemma copied_fields_frame [simp]:
  "dive_heap (copied_fields st trip dive_trip) = dive_heap st"
  "dive_trip_list (copied_fields st trip dive_trip) = dive_trip_list st"
  "dive_table (copied_fields st trip dive_trip) = dive_table st"
  "trips_allocated (copied_fields st trip dive_trip) = trips_allocated st"
  "u \<noteq> trip \<Longrightarrow> trip_heap (copied_fields st trip dive_trip) u = trip_heap st u"
  "trip_when (trip_heap (copied_fields st trip dive_trip) u) = trip_when (trip_heap st u)"
  "dives (trip_heap (copied_fields st trip dive_trip) u) = dives (trip_heap st u)"
  "nrdives (trip_heap (copied_fields st trip dive_trip) u) = nrdives (trip_heap st u)"
  "autogen (trip_heap (copied_fields st trip dive_trip) u) = autogen (trip_heap st u)"
  "index (trip_heap (copied_fields st trip dive_trip) u) = index (trip_heap st u)"
  by (auto simp: copied_fields_def Let_def trip_upd_def)











subsection \<open>Auto-grouping\<close>
















subsection \<open>Auto-grouping three dives\<close>









subsection \<open>Start times after the trip mutations\<close>








subsection \<open>Splitting a trip in the tree view\<close>

text \<open>
  \<^verbatim>\<open>insert_trip_before\<close> (lines 1840-1892) works on the rows of the GTK tree store
  next to the trips. The part of the store it reads and writes is the row of the trip
  with its \<^verbatim>\<open>DIVE_DATE\<close> column and its child rows, each with the columns
  \<^verbatim>\<open>DIVE_INDEX\<close> and \<^verbatim>\<open>DIVE_DATE\<close>. The calls of the GTK library are read as
  their documentation describes them: \<^verbatim>\<open>gtk_tree_store_insert_after\<close> with a null
  sibling prepends the row to the children of the parent, \<^verbatim>\<open>gtk_tree_store_remove\<close>
  takes the row out, \<^verbatim>\<open>copy_tree_node\<close> copies the columns of a row.
\<close>

record trip_row =
  row_date :: int
  row_children :: "(int \<times> int) list"

text \<open>\<^verbatim>\<open>update_trip_timestamp\<close> (lines 1709-1727) for a row of depth 0.\<close>

definition update_trip_timestamp :: "trip_row \<Rightarrow> trip_ptr option \<Rightarrow> divelist \<Rightarrow> trip_row \<times> divelist" where
  "update_trip_timestamp parent divetrip' st =
     (if row_children parent = [] then (parent, st)
      else
        let t1 = snd (hd (row_children parent));
            t2 = snd (last (row_children parent));
            tnew = min t1 t2
        in (parent\<lparr>row_date := tnew\<rparr>,
            case divetrip' of
              None \<Rightarrow> st
            | Some trip \<Rightarrow> trip_upd trip (\<lambda>x. x\<lparr>trip_when := tnew\<rparr>) st))"

text \<open>
  \<^verbatim>\<open>move_dive_between_trips\<close> (lines 1734-1766) as \<^verbatim>\<open>insert_trip_before\<close> calls it:
  the child \<open>i\<close> of \<open>old_trip\<close> moves to the front of the children of \<open>new_trip\<close>,
  then both rows and the trips found for them get their time from their children.
\<close>

definition move_dive_between_trips ::
  "nat \<Rightarrow> trip_row \<Rightarrow> trip_row \<Rightarrow> divelist \<Rightarrow> (trip_row \<times> trip_row \<times> divelist) option" where
  "move_dive_between_trips i old_trip new_trip st =
     (let child = row_children old_trip ! i;
          new_trip1 = new_trip\<lparr>row_children := child # row_children new_trip\<rparr>;
          old_trip1 = old_trip\<lparr>row_children :=
                        take i (row_children old_trip) @ drop (Suc i) (row_children old_trip)\<rparr>
      in case get_dive st (fst child) of
           None \<Rightarrow> None
         | Some dive \<Rightarrow>
             let old_divetrip = find_matching_trip st (row_date old_trip1);
                 (old_trip2, st1) = update_trip_timestamp old_trip1 old_divetrip st;
                 new_divetrip = divetrip (dive_heap st1 dive);
                 (new_trip2, st2) = update_trip_timestamp new_trip1 new_divetrip st1
             in Some (old_trip2, new_trip2, st2))"

text \<open>
  The loop of \<^verbatim>\<open>insert_trip_before\<close> (lines 1869-1882), from the last child of the
  row down to the child \<open>k\<close> of the path.
\<close>

definition insert_trip_before_step ::
  "nat \<Rightarrow> trip_ptr \<Rightarrow> trip_row \<times> trip_row \<times> divelist \<Rightarrow> (trip_row \<times> trip_row \<times> divelist) option" where
  "insert_trip_before_step i new_divetrip acc =
     (case acc of (parent, newparent, st) \<Rightarrow>
        (case get_dive st (fst (row_children parent ! i)) of
           None \<Rightarrow> None
         | Some dive \<Rightarrow>
             (case add_dive_to_trip dive new_divetrip st of
                None \<Rightarrow> None
              | Some st1 \<Rightarrow> move_dive_between_trips i parent newparent st1)))"

fun insert_trip_before_loop ::
  "nat \<Rightarrow> nat \<Rightarrow> trip_ptr \<Rightarrow> trip_row \<times> trip_row \<times> divelist \<Rightarrow> (trip_row \<times> trip_row \<times> divelist) option" where
  "insert_trip_before_loop k 0 new_divetrip acc = insert_trip_before_step 0 new_divetrip acc"
| "insert_trip_before_loop k (Suc j) new_divetrip acc =
     (case insert_trip_before_step (Suc j) new_divetrip acc of
        None \<Rightarrow> None
      | Some acc' \<Rightarrow> if Suc j = k then Some acc' else insert_trip_before_loop k j new_divetrip acc')"

text \<open>
  \<^verbatim>\<open>insert_trip_before\<close> for the child \<open>k\<close> of the row \<open>parent\<close>. For the first
  child \<^verbatim>\<open>gtk_tree_path_prev\<close> fails and nothing is done. The result is the row of
  the trip, the new row that is inserted after it, and the state.
\<close>

definition insert_trip_before ::
  "trip_row \<Rightarrow> nat \<Rightarrow> divelist \<Rightarrow> (trip_row \<times> trip_row option \<times> divelist) option" where
  "insert_trip_before parent k st =
     (if k = 0 then Some (parent, None, st)
      else if length (row_children parent) \<le> k then None
      else
        (case (get_dive st (fst (row_children parent ! (k - 1))), get_dive st (fst (row_children parent ! k))) of
           (Some prev_dive, Some dive) \<Rightarrow>
             let newparent = \<lparr>row_date = row_date parent, row_children = []\<rparr>;
                 st1 = (if dive_when (dive_heap st dive) < dive_when (dive_heap st prev_dive)
                        then (case divetrip (dive_heap st prev_dive) of
                                None \<Rightarrow> st
                              | Some trip \<Rightarrow>
                                  if trip_when (trip_heap st trip) < dive_when (dive_heap st prev_dive)
                                  then trip_upd trip (\<lambda>x. x\<lparr>trip_when := dive_when (dive_heap st prev_dive)\<rparr>) st
                                  else st)
                        else st)
             in (case create_and_hookup_trip_from_dive dive st1 of
                   None \<Rightarrow> None
                 | Some (new_divetrip, st2) \<Rightarrow>
                     (case insert_trip_before_loop k (length (row_children parent) - 1) new_divetrip
                             (parent, newparent, st2) of
                        None \<Rightarrow> None
                      | Some (parent', newparent', st3) \<Rightarrow> Some (parent', Some newparent', st3)))
         | _ \<Rightarrow> None))"

text \<open>
  A trip with two dives that start at the same time, and its row in the tree view.
\<close>

definition twin_example :: divelist where
  "twin_example = \<lparr>
     dive_heap = (\<lambda>_. plain_dive 1 0)
       (0 := member_dive 1000 3000 0 (Some 1) (Trip_dives 0),
        1 := member_dive 1000 2400 0 None (Dive_next 0)),
     trip_heap = (\<lambda>_. zeroed_trip)
       (0 := zeroed_trip\<lparr>trip_when := 1000, dives := Some 0, nrdives := 2\<rparr>),
     trips_allocated = 1,
     dive_trip_list = [0],
     dive_table = [0, 1]\<rparr>"

definition twin_row :: trip_row where
  "twin_row = \<lparr>row_date = 1000, row_children = [(0, 1000), (1, 1000)]\<rparr>"

lemmas insert_trip_before_defs = insert_trip_before_def insert_trip_before_step_def
  move_dive_between_trips_def update_trip_timestamp_def create_and_hookup_trip_from_dive_def
  insert_trip_def insert_trip_dives.simps find_matching_trip_def get_dive_def
  merge_trips_cb_def merge_trips_def

text \<open>The example satisfies the invariant of the bookkeeping.\<close>

lemma twin_example_ok: "trips_ok twin_example"
proof -
  have m: "members twin_example 0 = [0, Suc 0]"
    by (simp add: members_def twin_example_def member_dive_def plain_dive_def zeroed_trip_def
        numeral_2_eq_2)
  have tl: "trip_linked twin_example 0"
    unfolding trip_linked_def m
    by (simp add: twin_example_def member_dive_def plain_dive_def zeroed_trip_def)
  have so: "start_ok twin_example 0"
    unfolding start_ok_def m
    by (simp add: twin_example_def member_dive_def plain_dive_def zeroed_trip_def)
  have dtr: "(divetrip (dive_heap twin_example x) = Some t) = ((x = 0 \<or> x = Suc 0) \<and> t = 0)" for x t
    by (auto simp: twin_example_def member_dive_def plain_dive_def)
  have reg: "dive_trip_list twin_example = [0]" "trips_allocated twin_example = 1"
    by (simp_all add: twin_example_def)
  show ?thesis
    by (auto simp: trips_ok_def registry_wf_def reg tl so dtr m)
qed

text \<open>
  C8. Splitting the trip of the example at its second dive: the draft of the new trip
  starts at the time of the dive, which is the start of the trip it is in, so
  \<^verbatim>\<open>insert_trip\<close> merges the draft into that trip and returns it. No trip is created:
  the registry still holds the one trip with both dives, while the tree view now has two
  rows with the same date. Merging the row of the "new" trip into the row above then
  finds the same trip for both rows, and the assertion \<^verbatim>\<open>assert(thistrip != prevtrip)\<close>
  of \<^verbatim>\<open>merge_trips_cb\<close> fails: the round trip does not complete.
\<close>

theorem split_at_equal_time_creates_no_trip:
  "insert_trip_before twin_row 1 twin_example \<noteq> None \<and>
   fst (the (insert_trip_before twin_row 1 twin_example)) = \<lparr>row_date = 1000, row_children = [(0, 1000)]\<rparr> \<and>
   fst (snd (the (insert_trip_before twin_row 1 twin_example))) =
     Some \<lparr>row_date = 1000, row_children = [(1, 1000)]\<rparr> \<and>
   dive_trip_list (snd (snd (the (insert_trip_before twin_row 1 twin_example)))) = [0] \<and>
   members (snd (snd (the (insert_trip_before twin_row 1 twin_example)))) 0 = [0, 1] \<and>
   merge_trips_cb 1000 1000 (snd (snd (the (insert_trip_before twin_row 1 twin_example)))) = None"
  by (simp add: insert_trip_before_defs trip_ops_defs twin_example_def twin_row_def member_dive_def
      plain_dive_def zeroed_trip_def members_def Let_def numeral_2_eq_2)

end
